theory Spec2Isabelle
  imports Complex_Main "HOL-Library.Char_ord" "HOL-Library.List_Lexorder" "HOL-Library.Log_Nat"
begin

section \<open>The speech-command data pipeline of task04.ipynb\<close>

text \<open>
  The notebook defines a dataset class \<open>SoundDataset\<close> (corpus indexing, subset filtering,
  label encoding, indexed access) and three transforms \<open>RandomChop\<close>, \<open>Specgram\<close> and
  \<open>ToTensor\<close>. Each Python function is a HOL function of the same name. Exceptions are
  values of the type \<open>error\<close>; a function that can raise returns \<open>error + 'a\<close> with
  \<open>Inl\<close> for the exception.
\<close>

datatype error = ValueError | ZeroDivisionError | OverflowError | OSError | IndexError

subsection \<open>Python and library primitives\<close>

text \<open>
  \<open>xs[i]\<close> for a list or the first axis of an array: a negative index counts from the
  end, anything outside \<open>[-len, len)\<close> raises IndexError.
\<close>

definition py_index :: "'a list \<Rightarrow> int \<Rightarrow> error + 'a" where
  "py_index xs i =
     (if 0 \<le> i \<and> i < int (length xs) then Inr (xs ! nat i)
      else if i < 0 \<and> - int (length xs) \<le> i then Inr (xs ! nat (int (length xs) + i))
      else Inl IndexError)"

text \<open>
  \<open>xs[a : b]\<close>: each bound is taken from the end when negative and then clamped to
  \<open>[0, len]\<close>; the slice is empty when the bounds cross.
\<close>

definition slice_bound :: "nat \<Rightarrow> int \<Rightarrow> nat" where
  "slice_bound n i = (if i < 0 then nat (max 0 (int n + i)) else min (nat i) n)"

definition py_slice :: "'a list \<Rightarrow> int \<Rightarrow> int \<Rightarrow> 'a list" where
  "py_slice xs a b =
     (let lo = slice_bound (length xs) a; hi = slice_bound (length xs) b
      in take (hi - lo) (drop lo xs))"

text \<open>
  \<open>s.split(sep)\<close> with a one-character separator: the text is cut at every occurrence of
  the separator, so a text with \<open>k\<close> separators gives \<open>k + 1\<close> pieces, some possibly empty.
\<close>

fun split_on :: "char \<Rightarrow> string \<Rightarrow> string list" where
  "split_on sep [] = [[]]"
| "split_on sep (c # cs) =
     (if c = sep then [] # split_on sep cs
      else (case split_on sep cs of [] \<Rightarrow> [[c]] | w # ws \<Rightarrow> (c # w) # ws))"

text \<open>
  \<open>int(x)\<close> on a float truncates toward zero; \<open>round(x)\<close> rounds to the nearest integer and
  a tie to the even neighbour. Both are exact on the value of the float.
\<close>

definition py_int :: "real \<Rightarrow> int" where
  "py_int x = (if 0 \<le> x then \<lfloor>x\<rfloor> else \<lceil>x\<rceil>)"

definition py_round :: "real \<Rightarrow> int" where
  "py_round x =
     (let f = \<lfloor>x\<rfloor>; d = x - of_int f
      in if d < 1 / 2 then f else if 1 / 2 < d then f + 1 else if even f then f else f + 1)"

text \<open>
  Python floats are IEEE 754 doubles, modelled by the reals they denote. \<open>fl x\<close> is the
  double nearest to the real \<open>x\<close>, a tie going to the even significand: \<open>expo x\<close> is the
  binary exponent of a positive \<open>x\<close>, the significand has 53 bits, and below \<open>2^-1022\<close> the
  spacing stays that of the smallest normal doubles. The true division of two ints, the
  conversion of an int to a float, and the product and the quotient of two floats each
  give the double nearest to the exact result; \<open>to_double\<close> is that step. Division of ints
  and conversion raise OverflowError beyond the largest double; a product beyond it is
  \<open>inf\<close>, which \<open>int()\<close> and \<open>round()\<close> reject with OverflowError, so the model raises it at
  the product.
\<close>

definition expo :: "real \<Rightarrow> int" where
  "expo x = (if 1 \<le> x then bitlen \<lfloor>x\<rfloor> - 1 else - bitlen (\<lceil>1 / x\<rceil> - 1))"

definition fl :: "real \<Rightarrow> real" where
  "fl x = (if x = 0 then 0
           else (let e = max (expo \<bar>x\<bar>) (- 1022)
                 in sgn x * of_int (py_round (\<bar>x\<bar> * 2 powi (52 - e))) * 2 powi (e - 52)))"

definition to_double :: "real \<Rightarrow> error + real" where
  "to_double x = (let y = fl x in if 2 ^ 1024 \<le> \<bar>y\<bar> then Inl OverflowError else Inr y)"

text \<open>
  \<open>np.random.randint(low, high)\<close> draws from the half-open range \<open>[low, high)\<close> and raises
  ValueError when the range is empty. For one run of the program the generator is the
  parameter \<open>rnd\<close>: \<open>rnd low high\<close> is the number it hands out for these bounds, and
  \<open>randint_range\<close> says that it lies in the range.
\<close>

definition np_randint :: "(int \<Rightarrow> int \<Rightarrow> int) \<Rightarrow> int \<Rightarrow> int \<Rightarrow> error + int" where
  "np_randint rnd low high = (if low < high then Inr (rnd low high) else Inl ValueError)"

definition randint_range :: "(int \<Rightarrow> int \<Rightarrow> int) \<Rightarrow> bool" where
  "randint_range rnd = (\<forall>low high. low < high \<longrightarrow> low \<le> rnd low high \<and> rnd low high < high)"

text \<open>
  Over all runs the draw is random: numpy documents \<open>randint\<close> as a draw from the discrete
  uniform distribution on \<open>[low, high)\<close>. A distribution with finitely many outcomes is
  the list of the outcomes with their probabilities, here one entry for every number of
  the range in ascending order, each with probability \<open>1 / (high - low)\<close>.
\<close>

type_synonym 'a dist = "('a \<times> real) list"

definition np_randint_dist :: "int \<Rightarrow> int \<Rightarrow> error + int dist" where
  "np_randint_dist low high =
     (if low < high then Inr (map (\<lambda>k. (k, 1 / of_int (high - low))) [low..high - 1])
      else Inl ValueError)"

subsection \<open>The label vocabulary and \<open>unzip2\<close>\<close>

text \<open>\<open>legal_labels\<close> is the value of \<open>'yes no up ... unknown'.split()\<close>.\<close>

definition legal_labels :: "string list" where
  "legal_labels = [''yes'', ''no'', ''up'', ''down'', ''left'', ''right'', ''on'', ''off'',
                   ''stop'', ''go'', ''silence'', ''unknown'']"

text \<open>
  \<open>a, b = zip(*values)\<close> over a sequence of 2-tuples: \<open>zip\<close> yields one tuple per
  component, so the unpacking succeeds when there is at least one tuple; with no tuple
  \<open>zip()\<close> yields nothing and the unpacking raises ValueError.
\<close>

definition unzip2 :: "('a \<times> 'b) list \<Rightarrow> error + ('a list \<times> 'b list)" where
  "unzip2 values = (case values of [] \<Rightarrow> Inl ValueError
                    | _ # _ \<Rightarrow> Inr (map fst values, map snd values))"

subsection \<open>\<open>SoundDataset\<close>\<close>

text \<open>
  A directory is the list of its subfolders, each with the names of its entries, in the
  order of the file system's listing. \<open>directory.glob('*/*.wav')\<close> yields the entries whose
  name ends in \<open>.wav\<close>, and \<open>path.parts[-2:]\<close> is the pair of folder name and file name.
\<close>

type_synonym dir_tree = "(string \<times> string list) list"

definition endswith :: "string \<Rightarrow> string \<Rightarrow> bool" where
  "endswith s suf = (length suf \<le> length s \<and> drop (length s - length suf) s = suf)"

definition glob_parts :: "dir_tree \<Rightarrow> string \<Rightarrow> (string \<times> string) list" where
  "glob_parts d ext =
     concat (map (\<lambda>(folder, names).
                    map (\<lambda>name. (folder, name)) (filter (\<lambda>name. endswith name (CHR ''.'' # ext)) names))
                 d)"

record SoundDataset =
  directory :: dir_tree
  subset :: "string set option"
  labels :: "string list"
  sounds :: "string list"
  transformed_labels :: "real list list"

text \<open>\<open>_is_needed\<close>: without a subset every name is kept.\<close>

definition is_needed :: "string set option \<Rightarrow> string \<Rightarrow> bool" where
  "is_needed sub name = (case sub of Some s \<Rightarrow> name \<in> s | None \<Rightarrow> True)"

definition list_of_wavs :: "string set option \<Rightarrow> dir_tree \<Rightarrow> error + (string list \<times> string list)" where
  "list_of_wavs sub d = unzip2 (filter (\<lambda>parts. is_needed sub (snd parts)) (glob_parts d ''wav''))"

text \<open>
  \<open>_load_subset\<close>: the set comprehension takes \<open>path.split('/')[1]\<close> of every line of the
  text in turn; the first line for which the index fails ends the call with its error.
\<close>

definition segment1 :: "string \<Rightarrow> error + string" where
  "segment1 path = py_index (split_on CHR ''/'' path) 1"

fun collect :: "(error + 'a) list \<Rightarrow> error + 'a list" where
  "collect [] = Inr []"
| "collect (Inl e # rs) = Inl e"
| "collect (Inr x # rs) = (case collect rs of Inl e \<Rightarrow> Inl e | Inr xs \<Rightarrow> Inr (x # xs))"

definition load_subset :: "string \<Rightarrow> error + string set" where
  "load_subset text =
     (case collect (map segment1 (split_on (CHR 0x0A) text)) of
        Inl e \<Rightarrow> Inl e
      | Inr names \<Rightarrow> Inr (set names))"

text \<open>
  \<open>_transform_labels\<close>: the loop maps every raw folder name to its canonical class
  (\<open>canonical\<close> is the loop body), then \<open>pd.get_dummies\<close> encodes the classes. The columns
  of \<open>get_dummies\<close> are the distinct values of the series in ascending order, for strings
  the lexicographic order of their characters; row \<open>i\<close> has a 1 in the column of value
  \<open>i\<close> and 0 elsewhere. \<open>np.array(..., dtype=np.float32)\<close> keeps the rows and drops the
  column names; 0 and 1 are exact in float32.
\<close>

definition canonical :: "string \<Rightarrow> string" where
  "canonical label =
     (if label = ''_background_noise_'' then ''silence''
      else if label \<notin> set legal_labels then ''unknown''
      else label)"

definition dummy_columns :: "string list \<Rightarrow> string list" where
  "dummy_columns vs = sort (remdups vs)"

definition get_dummies :: "string list \<Rightarrow> real list list" where
  "get_dummies vs = map (\<lambda>v. map (\<lambda>c. if v = c then 1 else 0) (dummy_columns vs)) vs"

definition transform_labels :: "string list \<Rightarrow> real list list" where
  "transform_labels ls = get_dummies (map canonical ls)"

text \<open>
  \<open>__init__\<close>. \<open>init_from_subset\<close> is the constructor from its second assignment on, once
  \<open>self._subset\<close> is known; \<open>SoundDataset_init\<close> is the whole constructor, whose argument
  \<open>subset_text\<close> is the text of the membership file when a path is given.
\<close>

definition init_from_subset :: "dir_tree \<Rightarrow> string set option \<Rightarrow> error + SoundDataset" where
  "init_from_subset d sub =
     (case list_of_wavs sub d of
        Inl e \<Rightarrow> Inl e
      | Inr (ls, ss) \<Rightarrow>
          Inr \<lparr>directory = d, subset = sub, labels = ls, sounds = ss,
               transformed_labels = transform_labels ls\<rparr>)"

definition SoundDataset_init :: "dir_tree \<Rightarrow> string option \<Rightarrow> error + SoundDataset" where
  "SoundDataset_init d subset_text =
     (case subset_text of
        None \<Rightarrow> init_from_subset d None
      | Some text \<Rightarrow>
          (case load_subset text of
             Inl e \<Rightarrow> Inl e
           | Inr s \<Rightarrow> init_from_subset d (Some s)))"

definition SoundDataset_len :: "SoundDataset \<Rightarrow> nat" where
  "SoundDataset_len ds = length (labels ds)"

text \<open>
  A sample is the dictionary with the keys \<open>sample_rate\<close>, \<open>samples\<close> and \<open>label\<close>.
  \<open>__getitem__\<close> reads the file through \<open>wav_read\<close> (\<open>wavfile.read\<close>, given the folder and
  the file name) and hands the sample to \<open>transform\<close>; \<open>transform=None\<close> is \<open>Inr\<close>.
\<close>

record sample =
  sample_rate :: int
  samples :: "int list"
  label :: "real list"

definition getitem ::
  "SoundDataset \<Rightarrow> (string \<Rightarrow> string \<Rightarrow> error + int \<times> int list) \<Rightarrow> (sample \<Rightarrow> error + 'a) \<Rightarrow> int
     \<Rightarrow> error + 'a" where
  "getitem ds wav_read transform idx =
     (case py_index (labels ds) idx of
        Inl e \<Rightarrow> Inl e
      | Inr lbl \<Rightarrow>
     (case py_index (sounds ds) idx of
        Inl e \<Rightarrow> Inl e
      | Inr snd_name \<Rightarrow>
     (case wav_read lbl snd_name of
        Inl e \<Rightarrow> Inl e
      | Inr (rate, xs) \<Rightarrow>
     (case py_index (transformed_labels ds) idx of
        Inl e \<Rightarrow> Inl e
      | Inr v \<Rightarrow> transform \<lparr>sample_rate = rate, samples = xs, label = v\<rparr>))))"

subsection \<open>\<open>RandomChop\<close>\<close>

text \<open>
  \<open>np.pad(samples, pad_width=(n, 0), mode='constant', constant_values=(0, 0))\<close> puts \<open>n\<close>
  zeros in front of the samples.
\<close>

definition pad_audio :: "nat \<Rightarrow> int list \<Rightarrow> int list" where
  "pad_audio len xs =
     (if len \<le> length xs then xs else replicate (len - length xs) 0 @ xs)"

definition chop_audio :: "(int \<Rightarrow> int \<Rightarrow> int) \<Rightarrow> nat \<Rightarrow> int list \<Rightarrow> error + int list" where
  "chop_audio rnd len xs =
     (case np_randint rnd 0 (int (length xs) - int len) of
        Inl e \<Rightarrow> Inl e
      | Inr start \<Rightarrow> Inr (py_slice xs start (start + int len)))"

definition RandomChop_call :: "(int \<Rightarrow> int \<Rightarrow> int) \<Rightarrow> nat \<Rightarrow> sample \<Rightarrow> error + sample" where
  "RandomChop_call rnd len s =
     (let xs = pad_audio len (samples s)
      in if len < length xs
         then (case chop_audio rnd len xs of
                 Inl e \<Rightarrow> Inl e
               | Inr ys \<Rightarrow> Inr \<lparr>sample_rate = sample_rate s, samples = ys, label = label s\<rparr>)
         else Inr \<lparr>sample_rate = sample_rate s, samples = xs, label = label s\<rparr>)"

text \<open>
  The same two functions over all runs: the offset is drawn with numpy's distribution,
  and every outcome of the draw gives one outcome of the call, with the probability of
  the draw. Where nothing is drawn the call has one outcome, of probability 1.
\<close>

definition chop_audio_dist :: "nat \<Rightarrow> int list \<Rightarrow> error + int list dist" where
  "chop_audio_dist len xs =
     (case np_randint_dist 0 (int (length xs) - int len) of
        Inl e \<Rightarrow> Inl e
      | Inr starts \<Rightarrow> Inr (map (\<lambda>(start, pr). (py_slice xs start (start + int len), pr)) starts))"

definition RandomChop_dist :: "nat \<Rightarrow> sample \<Rightarrow> error + sample dist" where
  "RandomChop_dist len s =
     (let xs = pad_audio len (samples s)
      in if len < length xs
         then (case chop_audio_dist len xs of
                 Inl e \<Rightarrow> Inl e
               | Inr crops \<Rightarrow>
                   Inr (map (\<lambda>(ys, pr).
                               (\<lparr>sample_rate = sample_rate s, samples = ys, label = label s\<rparr>, pr))
                            crops))
         else Inr [(\<lparr>sample_rate = sample_rate s, samples = xs, label = label s\<rparr>, 1)])"

subsection \<open>\<open>Specgram\<close> and \<open>ToTensor\<close>\<close>

text \<open>
  The spectrogram's values are floating-point numbers and are not modelled; its shape is.
  \<open>rate_product\<close> is the float \<open>self.sample_rate / sample_rate * samples.shape[0]\<close>: the
  quotient of the two ints, the conversion of the length, and their product, each rounded
  to a double. \<open>resample_num\<close> is the second argument of \<open>signal.resample\<close>, the \<open>int(...)\<close>
  of that product.
\<close>

definition rate_product :: "int \<Rightarrow> int \<Rightarrow> nat \<Rightarrow> error + real" where
  "rate_product target rate n =
     (if rate = 0 then Inl ZeroDivisionError
      else (case to_double (of_int target / of_int rate) of
              Inl e \<Rightarrow> Inl e
            | Inr q \<Rightarrow>
           (case to_double (of_nat n) of
              Inl e \<Rightarrow> Inl e
            | Inr m \<Rightarrow> to_double (q * m))))"

definition resample_num :: "int \<Rightarrow> int \<Rightarrow> nat \<Rightarrow> error + int" where
  "resample_num target rate n =
     (case rate_product target rate n of Inl e \<Rightarrow> Inl e | Inr p \<Rightarrow> Inr (py_int p))"

text \<open>
  \<open>signal.resample(x, num)\<close> is scipy's: it returns \<open>num\<close> samples, whose values are not
  modelled. It works through the Fourier transform, which takes no empty signal and
  gives no signal of zero or fewer samples: these calls raise ValueError.
  \<open>resampled_length\<close> is the length of \<open>resampled\<close> in \<open>__call__\<close>.
\<close>

definition signal_resample :: "nat \<Rightarrow> int \<Rightarrow> error + nat" where
  "signal_resample n num = (if n = 0 \<or> num \<le> 0 then Inl ValueError else Inr (nat num))"

definition resampled_length :: "int \<Rightarrow> int \<Rightarrow> nat \<Rightarrow> error + nat" where
  "resampled_length target rate n =
     (case resample_num target rate n of
        Inl e \<Rightarrow> Inl e
      | Inr num \<Rightarrow> signal_resample n num)"

text \<open>
  The shape of \<open>signal.spectrogram(audio, nperseg=w, noverlap=v)\<close> for a one-dimensional
  real signal of \<open>n\<close> samples is scipy's, not the notebook's; it is written down here from
  scipy's description: a window longer than the signal is cut to the signal, the overlap
  must stay below the window, there are \<open>w div 2 + 1\<close> frequencies and
  \<open>(n - v) div (w - v)\<close> segments. An empty signal has no second axis for the \<open>reshape\<close> of
  \<open>__call__\<close> to read.
\<close>

definition spectrogram_shape :: "int \<Rightarrow> int \<Rightarrow> int \<Rightarrow> error + nat \<times> nat" where
  "spectrogram_shape n nperseg noverlap =
     (if n < 0 then Inl ValueError
      else if n = 0 then Inl IndexError
      else if nperseg < 1 then Inl ValueError
      else (let w = (if n < nperseg then n else nperseg)
            in if w \<le> noverlap then Inl ValueError
               else Inr (nat (w div 2 + 1), nat ((n - noverlap) div (w - noverlap)))))"

text \<open>
  \<open>_log_specgram\<close> returns the transposed spectrogram, time first. \<open>ms_to_samples\<close> is
  \<open>int(round(ms * sample_rate / 1e3))\<close>: the product of the two ints is converted to a
  double and divided by 1000.0. The result of \<open>Specgram.__call__\<close> has the keys \<open>samples\<close>
  and \<open>label\<close>; of \<open>samples\<close> the model keeps the shape \<open>(1, time_bins, freq_bins)\<close>.
\<close>

definition ms_to_samples :: "int \<Rightarrow> int \<Rightarrow> error + int" where
  "ms_to_samples ms rate =
     (case to_double (of_int (ms * rate)) of
        Inl e \<Rightarrow> Inl e
      | Inr k \<Rightarrow>
     (case to_double (k / 1000) of
        Inl e \<Rightarrow> Inl e
      | Inr d \<Rightarrow> Inr (py_round d)))"

definition log_specgram_shape :: "int \<Rightarrow> int \<Rightarrow> int \<Rightarrow> int \<Rightarrow> error + nat \<times> nat" where
  "log_specgram_shape n rate window_size step_size =
     (case ms_to_samples window_size rate of
        Inl e \<Rightarrow> Inl e
      | Inr nperseg \<Rightarrow>
     (case ms_to_samples step_size rate of
        Inl e \<Rightarrow> Inl e
      | Inr noverlap \<Rightarrow>
     (case spectrogram_shape n nperseg noverlap of
        Inl e \<Rightarrow> Inl e
      | Inr (freq_bins, time_bins) \<Rightarrow> Inr (time_bins, freq_bins))))"

record specgram_sample =
  spec_shape :: "nat \<times> nat \<times> nat"
  spec_label :: "real list"

definition Specgram_call :: "int \<Rightarrow> sample \<Rightarrow> error + specgram_sample" where
  "Specgram_call target s =
     (case resampled_length target (sample_rate s) (length (samples s)) of
        Inl e \<Rightarrow> Inl e
      | Inr n \<Rightarrow>
     (case log_specgram_shape (int n) target 20 10 of
        Inl e \<Rightarrow> Inl e
      | Inr (time_bins, freq_bins) \<Rightarrow>
          Inr \<lparr>spec_shape = (1, time_bins, freq_bins), spec_label = label s\<rparr>))"

text \<open>\<open>torch.from_numpy\<close> changes the container, not the shape or the values.\<close>

definition ToTensor_call :: "specgram_sample \<Rightarrow> error + specgram_sample" where
  "ToTensor_call s = Inr \<lparr>spec_shape = spec_shape s, spec_label = spec_label s\<rparr>"

text \<open>
  \<open>transforms.Compose([RandomChop(len), Specgram(target), ToTensor()])\<close>; the notebook's
  \<open>data_transform\<close> has the defaults \<open>len = 16000\<close> and \<open>target = 8000\<close>.
\<close>

definition compose3 :: "(int \<Rightarrow> int \<Rightarrow> int) \<Rightarrow> nat \<Rightarrow> int \<Rightarrow> sample \<Rightarrow> error + specgram_sample" where
  "compose3 rnd len target s =
     (case RandomChop_call rnd len s of
        Inl e \<Rightarrow> Inl e
      | Inr s1 \<Rightarrow>
     (case Specgram_call target s1 of
        Inl e \<Rightarrow> Inl e
      | Inr s2 \<Rightarrow> ToTensor_call s2))"

definition data_transform :: "(int \<Rightarrow> int \<Rightarrow> int) \<Rightarrow> sample \<Rightarrow> error + specgram_sample" where
  "data_transform rnd = compose3 rnd 16000 8000"

section \<open>Properties\<close>

subsection \<open>Text splitting and the subset file\<close>

lemma split_on_not_Nil: "split_on sep s \<noteq> []"
  by (induction s) (auto split: list.splits)

lemma split_on_no_sep: "sep \<notin> set s \<Longrightarrow> split_on sep s = [s]"
  by (induction s) auto

lemma split_on_snoc_sep: "split_on sep (s @ [sep]) = split_on sep s @ [[]]"
  by (induction s) (auto split: list.splits simp: split_on_not_Nil)

lemma py_index_error: "py_index xs i = Inl e \<Longrightarrow> e = IndexError"
  by (auto simp: py_index_def split: if_splits)

lemma segment1_no_sep: "CHR ''/'' \<notin> set line \<Longrightarrow> segment1 line = Inl IndexError"
  by (simp add: segment1_def split_on_no_sep py_index_def)

lemma collect_first_error:
  "\<lbrakk>Inl e \<in> set rs; set rs \<subseteq> insert (Inl e) (range Inr)\<rbrakk> \<Longrightarrow> collect rs = Inl e"
  by (induction rs rule: collect.induct) auto

lemma segment1_cases: "segment1 p \<in> insert (Inl IndexError) (range Inr)"
  by (cases "segment1 p") (auto simp: segment1_def dest: py_index_error)

lemma load_subset_bad_line:
  assumes "line \<in> set (split_on (CHR 0x0A) text)" and "CHR ''/'' \<notin> set line"
  shows "load_subset text = Inl IndexError"
proof -
  let ?rs = "map segment1 (split_on (CHR 0x0A) text)"
  have "segment1 line \<in> set ?rs"
    using assms(1) by simp
  then have "Inl IndexError \<in> set ?rs"
    using segment1_no_sep[OF assms(2)] by simp
  moreover have "set ?rs \<subseteq> insert (Inl IndexError) (range Inr)"
    using segment1_cases by auto
  ultimately have "collect ?rs = Inl IndexError"
    by (rule collect_first_error)
  then show ?thesis by (simp add: load_subset_def)
qed

text \<open>
  Claim C10. \<open>_load_subset\<close> cuts the text at newlines and takes piece 1 of every line cut
  at \<open>/\<close>. A text with a line that has no \<open>/\<close> makes the call fail with IndexError, and so
  does every text that ends in a newline, whose last line is empty.
\<close>

theorem load_subset_line_without_separator:
  "((\<exists>line \<in> set (split_on (CHR 0x0A) text). CHR ''/'' \<notin> set line)
      \<longrightarrow> load_subset text = Inl IndexError)
   \<and> load_subset (text @ [CHR 0x0A]) = Inl IndexError"
proof
  show "(\<exists>line \<in> set (split_on (CHR 0x0A) text). CHR ''/'' \<notin> set line)
          \<longrightarrow> load_subset text = Inl IndexError"
    using load_subset_bad_line by blast
next
  have "[] \<in> set (split_on (CHR 0x0A) (text @ [CHR 0x0A]))"
    by (simp add: split_on_snoc_sep)
  then show "load_subset (text @ [CHR 0x0A]) = Inl IndexError"
    by (rule load_subset_bad_line) simp
qed

theorem load_subset_line_without_separator_witness:
  "(\<exists>line \<in> set (split_on (CHR 0x0A) (''yes/a.wav'' @ [CHR 0x0A] @ ''README'')). CHR ''/'' \<notin> set line)
   \<and> load_subset (''yes/a.wav'' @ [CHR 0x0A] @ ''README'') = Inl IndexError
   \<and> load_subset (''yes/a.wav'' @ [CHR 0x0A]) = Inl IndexError"
  using load_subset_line_without_separator [of "''yes/a.wav'' @ [CHR 0x0A] @ ''README''"]
        load_subset_line_without_separator [of "''yes/a.wav''"]
  by simp

subsection \<open>Canonical classes\<close>

text \<open>
  Claim C2, as the code has it. A raw folder name is mapped in this order: the
  background-noise folder name gives \<open>silence\<close>; any other name that is in the vocabulary,
  all twelve names with \<open>silence\<close> and \<open>unknown\<close> among them, is kept; every other name
  gives \<open>unknown\<close>. So a folder named \<open>silence\<close> keeps the class \<open>silence\<close> and a folder
  named \<open>unknown\<close> keeps the class \<open>unknown\<close>.
\<close>

theorem canonical_priority:
  "(raw = ''_background_noise_'' \<longrightarrow> canonical raw = ''silence'')
   \<and> (raw \<noteq> ''_background_noise_'' \<and> raw \<in> set legal_labels \<longrightarrow> canonical raw = raw)
   \<and> (raw \<noteq> ''_background_noise_'' \<and> raw \<notin> set legal_labels \<longrightarrow> canonical raw = ''unknown'')
   \<and> canonical ''silence'' = ''silence'' \<and> canonical ''unknown'' = ''unknown''"
  by (simp add: canonical_def legal_labels_def)

theorem canonical_priority_witness:
  "canonical ''_background_noise_'' = ''silence''
   \<and> ''yes'' \<noteq> ''_background_noise_'' \<and> ''yes'' \<in> set legal_labels \<and> canonical ''yes'' = ''yes''
   \<and> ''banana'' \<noteq> ''_background_noise_'' \<and> ''banana'' \<notin> set legal_labels
   \<and> canonical ''banana'' = ''unknown''"
  using canonical_priority [of "''_background_noise_''"] canonical_priority [of "''yes''"]
        canonical_priority [of "''banana''"]
  by (simp add: legal_labels_def)

text \<open>
  Claim C2 as stated excludes \<open>silence\<close> and \<open>unknown\<close> from the membership test, so that a
  folder named \<open>silence\<close> would get the class \<open>unknown\<close>. The code tests against the whole
  of \<open>legal_labels\<close>: the folder \<open>silence\<close> is not the noise folder and its class is not
  \<open>unknown\<close>.
\<close>

theorem canonical_silence_counterexample:
  "''silence'' \<noteq> ''_background_noise_'' \<and> canonical ''silence'' \<noteq> ''unknown''"
  by (simp add: canonical_def legal_labels_def)

subsection \<open>An empty corpus\<close>

text \<open>
  Claim C6 says that a view over an empty directory, or with a subset that matches no
  file, is built and has length 0. In the code \<open>unzip2\<close> unpacks \<open>zip(*values)\<close> into two
  names, which needs at least one pair: with no file left the constructor raises
  ValueError and no view exists.
\<close>

theorem init_empty_corpus_fails:
  "SoundDataset_init [] None = Inl ValueError
   \<and> SoundDataset_init [(''yes'', [''abc123.wav''])] (Some ''no/zzz.wav'') = Inl ValueError"
  by (simp add: SoundDataset_init_def init_from_subset_def list_of_wavs_def glob_parts_def unzip2_def
       load_subset_def segment1_def py_index_def is_needed_def endswith_def)

subsection \<open>Rounding to doubles\<close>

lemma bitlen_pos: "0 < k \<Longrightarrow> 1 \<le> bitlen k"
  using bitlen_nonneg [of k] bitlen_eq_zero_iff [of k] by linarith

lemma real_of_int_less_pow2: "k < 2 ^ j \<Longrightarrow> (of_int k :: real) < 2 ^ j"
proof -
  assume "k < 2 ^ j"
  then have "(of_int k :: real) < of_int (2 ^ j)" by (simp only: of_int_less_iff)
  then show ?thesis by simp
qed

lemma real_of_int_le_pow2: "k \<le> 2 ^ j \<Longrightarrow> (of_int k :: real) \<le> 2 ^ j"
proof -
  assume "k \<le> 2 ^ j"
  then have "(of_int k :: real) \<le> of_int (2 ^ j)" by (simp only: of_int_le_iff)
  then show ?thesis by simp
qed

lemma real_of_int_ge_pow2: "2 ^ j \<le> k \<Longrightarrow> (2::real) ^ j \<le> of_int k"
proof -
  assume "2 ^ j \<le> k"
  then have "(of_int (2 ^ j) :: real) \<le> of_int k" by (simp only: of_int_le_iff)
  then show ?thesis by simp
qed

lemma real_of_int_ge_one: "0 < k \<Longrightarrow> (1::real) \<le> of_int k"
proof -
  assume "0 < k"
  then have "1 \<le> k" by simp
  then have "(of_int 1 :: real) \<le> of_int k" by (simp only: of_int_le_iff)
  then show ?thesis by simp
qed

text \<open>\<open>expo x\<close> is the binary exponent: \<open>2 ^ expo x \<le> x < 2 ^ (expo x + 1)\<close>.\<close>

lemma expo_bounds:
  assumes "0 < x"
  shows "2 powi expo x \<le> x" and "x < 2 powi (expo x + 1)"
proof -
  have "2 powi expo x \<le> x \<and> x < 2 powi (expo x + 1)"
  proof (cases "1 \<le> x")
    case True
    let ?k = "\<lfloor>x\<rfloor>"
    have k: "0 < ?k" using True by linarith
    have b1: "1 \<le> bitlen ?k" using k by (rule bitlen_pos)
    have e: "expo x = bitlen ?k - 1" using True by (simp add: expo_def)
    from bitlen_bounds [OF k]
    have lo: "2 ^ nat (bitlen ?k - 1) \<le> ?k" and hi: "?k < 2 ^ nat (bitlen ?k)" by simp_all
    have "(2::real) ^ nat (bitlen ?k - 1) \<le> of_int ?k"
      using lo by (rule real_of_int_ge_pow2)
    also have "\<dots> \<le> x" by simp
    finally have l: "2 powi expo x \<le> x"
      using b1 by (simp add: e power_int_def)
    have "?k + 1 \<le> 2 ^ nat (bitlen ?k)" using hi by simp
    then have "of_int (?k + 1) \<le> (2::real) ^ nat (bitlen ?k)"
      by (rule real_of_int_le_pow2)
    moreover have "x < of_int (?k + 1)" by simp
    ultimately have "x < 2 ^ nat (bitlen ?k)" by linarith
    then have "x < 2 powi (expo x + 1)"
      using b1 by (simp add: e power_int_def)
    with l show ?thesis by simp
  next
    case False
    let ?c = "\<lceil>1 / x\<rceil>"
    have x1: "x < 1" using False by simp
    have inv: "1 < 1 / x" using assms x1 by simp
    have c: "0 < ?c - 1" using inv by linarith
    let ?j = "bitlen (?c - 1)"
    have b1: "1 \<le> ?j" using c by (rule bitlen_pos)
    have e: "expo x = - ?j" using False by (simp add: expo_def)
    from bitlen_bounds [OF c]
    have lo: "2 ^ nat (?j - 1) \<le> ?c - 1" and hi: "?c - 1 < 2 ^ nat ?j" by simp_all
    have "?c \<le> 2 ^ nat ?j" using hi by simp
    then have "of_int ?c \<le> (2::real) ^ nat ?j"
      by (rule real_of_int_le_pow2)
    moreover have "1 / x \<le> of_int ?c" by simp
    ultimately have "1 / x \<le> 2 ^ nat ?j" by linarith
    then have "1 \<le> 2 ^ nat ?j * x"
      using assms by (simp add: field_simps)
    then have "1 / 2 ^ nat ?j \<le> x"
      by (simp add: field_simps)
    then have l: "2 powi expo x \<le> x"
      using b1 by (simp add: e power_int_def field_simps)
    have "(2::real) ^ nat (?j - 1) \<le> of_int (?c - 1)"
      using lo by (rule real_of_int_ge_pow2)
    moreover have "of_int (?c - 1) < 1 / x" by (simp add: ceiling_correct)
    ultimately have "2 ^ nat (?j - 1) < 1 / x" by linarith
    then have "2 ^ nat (?j - 1) * x < 1"
      using assms by (simp add: field_simps)
    then have "x < 1 / 2 ^ nat (?j - 1)"
      by (simp add: field_simps)
    moreover have "2 powi (expo x + 1) = (1::real) / 2 ^ nat (?j - 1)"
    proof (cases "?j = 1")
      case True
      then show ?thesis by (simp add: e)
    next
      case False
      then have "expo x + 1 < 0" "nat (- (expo x + 1)) = nat (?j - 1)" using b1 by (simp_all add: e)
      then show ?thesis by (simp add: power_int_def field_simps)
    qed
    ultimately have "x < 2 powi (expo x + 1)" by simp
    with l show ?thesis by simp
  qed
  then show "2 powi expo x \<le> x" and "x < 2 powi (expo x + 1)" by simp_all
qed

lemma py_round_error: "\<bar>of_int (py_round y) - y\<bar> \<le> 1 / 2"
  unfolding py_round_def Let_def by (auto simp: abs_if) linarith+

lemma py_round_nonneg: "0 \<le> y \<Longrightarrow> 0 \<le> py_round y"
  unfolding py_round_def Let_def by (auto simp: not_less)

lemma expo_normal:
  assumes "0 < x" and "2 powi (- 1022) \<le> x"
  shows "- 1022 \<le> expo x"
proof (rule ccontr)
  assume "\<not> - 1022 \<le> expo x"
  then have "expo x + 1 \<le> - 1022" by simp
  then have "(2::real) powi (expo x + 1) \<le> 2 powi (- 1022)"
    by (intro power_int_increasing) simp_all
  with expo_bounds(2) [OF assms(1)] assms(2) show False by linarith
qed

lemma fl_zero: "fl 0 = 0"
  by (simp add: fl_def)

text \<open>In the normal range rounding moves a positive number by at most \<open>2 ^ -53\<close> of itself.\<close>

lemma fl_error:
  assumes "0 < x" and "2 powi (- 1022) \<le> x"
  shows "\<bar>fl x - x\<bar> \<le> x / 2 ^ 53" and "0 \<le> fl x"
proof -
  let ?e = "expo x"
  let ?m = "py_round (x * 2 powi (52 - ?e))"
  have e: "max ?e (- 1022) = ?e"
    using expo_normal [OF assms] by simp
  have fl: "fl x = of_int ?m * 2 powi (?e - 52)"
    using assms(1) e by (simp add: fl_def Let_def)
  have pos: "(0::real) < 2 powi (?e - 52)"
    by (simp add: power_int_def)
  have inv: "(2::real) powi (52 - ?e) * 2 powi (?e - 52) = 1"
    by (simp flip: power_int_add)
  have "fl x - x = (of_int ?m - x * 2 powi (52 - ?e)) * 2 powi (?e - 52)"
    using inv by (simp add: fl algebra_simps)
  then have "\<bar>fl x - x\<bar> = \<bar>of_int ?m - x * 2 powi (52 - ?e)\<bar> * 2 powi (?e - 52)"
    using pos by (simp add: abs_mult)
  also have "\<dots> \<le> 1 / 2 * 2 powi (?e - 52)"
    using pos py_round_error by (intro mult_right_mono) simp_all
  also have "\<dots> = 2 powi ?e / 2 ^ 53"
    by (simp add: power_int_diff)
  also have "\<dots> \<le> x / 2 ^ 53"
    using expo_bounds(1) [OF assms(1)] by (simp add: divide_right_mono)
  finally show "\<bar>fl x - x\<bar> \<le> x / 2 ^ 53" .
  have "0 \<le> x * 2 powi (52 - ?e)"
    using assms(1) by (simp add: power_int_def)
  then have "0 \<le> ?m" by (rule py_round_nonneg)
  then show "0 \<le> fl x"
    using pos by (simp add: fl)
qed

lemma to_double_ok:
  assumes "0 \<le> x" and "x = 0 \<or> 2 powi (- 1022) \<le> x" and "x < 2 ^ 1023"
  shows "\<exists>y. to_double x = Inr y \<and> 0 \<le> y \<and> \<bar>y - x\<bar> \<le> x / 2 ^ 53"
proof (cases "x = 0")
  case True
  then show ?thesis by (simp add: to_double_def fl_zero)
next
  case False
  then have x: "0 < x" "2 powi (- 1022) \<le> x" using assms by simp_all
  note err = fl_error [OF x]
  have "x / 2 ^ 53 \<le> x" using x(1) by (simp add: field_simps)
  then have "fl x \<le> 2 * x" using err(1) by linarith
  then have "\<bar>fl x\<bar> < 2 ^ 1024" using err(2) assms(3) by simp
  then show ?thesis
    using err by (simp add: to_double_def Let_def)
qed

subsection \<open>The length of the resampled signal\<close>

lemma rel_bounds:
  fixes x y u :: real
  assumes "\<bar>y - x\<bar> \<le> x * u"
  shows "x * (1 - u) \<le> y" and "y \<le> x * (1 + u)"
  using assms by (simp_all add: algebra_simps abs_le_iff)

lemma three_roundings:
  fixes a b d m p u :: real
  assumes a: "0 \<le> a" and b: "0 \<le> b" and u: "0 \<le> u" "u \<le> 1"
    and d: "a * (1 - u) \<le> d" "d \<le> a * (1 + u)"
    and m: "b * (1 - u) \<le> m" "m \<le> b * (1 + u)"
    and p: "d * m * (1 - u) \<le> p" "p \<le> d * m * (1 + u)"
  shows "a * b * (1 - u) ^ 3 \<le> p" and "p \<le> a * b * (1 + u) ^ 3"
proof -
  have d0: "0 \<le> d" using d(1) a u by (meson mult_nonneg_nonneg order_trans diff_ge_0_iff_ge)
  have m0: "0 \<le> m" using m(1) b u by (meson mult_nonneg_nonneg order_trans diff_ge_0_iff_ge)
  have "(a * (1 - u)) * (b * (1 - u)) \<le> d * m"
    using d(1) m(1) a b u d0 by (intro mult_mono) simp_all
  then have "(a * (1 - u)) * (b * (1 - u)) * (1 - u) \<le> d * m * (1 - u)"
    using u by (intro mult_right_mono) simp_all
  with p(1) show "a * b * (1 - u) ^ 3 \<le> p"
    by (simp add: power3_eq_cube algebra_simps)
  have "d * m \<le> (a * (1 + u)) * (b * (1 + u))"
    using d(2) m(2) a b u d0 m0 by (intro mult_mono) simp_all
  then have "d * m * (1 + u) \<le> (a * (1 + u)) * (b * (1 + u)) * (1 + u)"
    using u by (intro mult_right_mono) simp_all
  with p(2) show "p \<le> a * b * (1 + u) ^ 3"
    by (simp add: power3_eq_cube algebra_simps)
qed

lemma cube_bounds:
  "1 - 4 * (1 / 2 ^ 53) \<le> (1 - 1 / 2 ^ 53 :: real) ^ 3"
  "(1 + 1 / 2 ^ 53 :: real) ^ 3 \<le> 1 + 4 * (1 / 2 ^ 53)"
  by (simp_all add: power3_eq_cube)

text \<open>
  For sizes below \<open>2 ^ 50\<close> the three roundings keep the float product within
  \<open>1 / (2 * rate)\<close> of the exact quotient \<open>target * n / rate\<close>.
\<close>

lemma rate_product_close:
  assumes t0: "0 \<le> target" and r0: "0 < rate" and tb: "target < 2 ^ 50" and rb: "rate < 2 ^ 50"
    and nb: "int n < 2 ^ 50" and tn: "target * int n < 2 ^ 50"
  shows "\<exists>p. rate_product target rate n = Inr p \<and> 0 \<le> p
           \<and> \<bar>p - of_int (target * int n) / of_int rate\<bar> < 1 / (2 * of_int rate)"
proof -
  define u :: real where "u = 1 / 2 ^ 53"
  define a :: real where "a = of_int target / of_int rate"
  define b :: real where "b = of_nat n"
  have u: "0 \<le> u" "u \<le> 1" by (simp_all add: u_def)
  have a0: "0 \<le> a" using t0 r0 by (simp add: a_def)
  have b0: "0 \<le> b" by (simp add: b_def)
  have rr: "(1::real) \<le> of_int rate" "of_int rate < (2::real) ^ 50"
    using r0 rb by (simp_all add: real_of_int_ge_one real_of_int_less_pow2)
  have tiny: "(2::real) powi (- 1022) \<le> 1 / 2 ^ 52"
  proof -
    have "(2::real) powi (- 1022) \<le> 2 powi (- 52)"
      by (intro power_int_increasing) simp_all
    also have "\<dots> = 1 / 2 ^ 52"
      by (simp add: power_int_def inverse_eq_divide power_one_over)
    finally show ?thesis .
  qed
  have "of_int target / of_int rate \<le> (of_int target / 1 :: real)"
    using t0 rr(1) by (intro divide_left_mono) simp_all
  then have a_le: "a \<le> of_int target" by (simp add: a_def)
  have a_lt: "a < 2 ^ 50"
    using a_le real_of_int_less_pow2 [OF tb] by linarith
  have a_norm: "a = 0 \<or> 1 / 2 ^ 50 \<le> a"
  proof (cases "target = 0")
    case True
    then show ?thesis by (simp add: a_def)
  next
    case False
    then have "(1::real) \<le> of_int target" using t0 by (intro real_of_int_ge_one) simp
    then have "1 / of_int rate \<le> a"
      using rr(1) by (simp add: a_def divide_right_mono)
    moreover have "(1::real) / 2 ^ 50 \<le> 1 / of_int rate"
      using rr by (simp add: field_simps)
    ultimately show ?thesis by linarith
  qed
  have b_lt: "b < 2 ^ 50"
    using real_of_int_less_pow2 [OF nb] by (simp add: b_def)
  have b_norm: "b = 0 \<or> 1 \<le> b"
    unfolding b_def by (cases n) simp_all
  obtain d where d: "to_double a = Inr d" "0 \<le> d" "\<bar>d - a\<bar> \<le> a / 2 ^ 53"
    using to_double_ok [of a] a0 a_norm a_lt tiny by force
  obtain m where m: "to_double b = Inr m" "0 \<le> m" "\<bar>m - b\<bar> \<le> b / 2 ^ 53"
    using to_double_ok [of b] b0 b_norm b_lt tiny by force
  have "\<bar>d - a\<bar> \<le> a * u" using d(3) by (simp add: u_def)
  note db = rel_bounds [OF this]
  have "\<bar>m - b\<bar> \<le> b * u" using m(3) by (simp add: u_def)
  note mb = rel_bounds [OF this]
  have dm0: "0 \<le> d * m" using d(2) m(2) by simp
  have dm_lt: "d * m < 2 ^ 1023"
  proof -
    have "a * (1 + u) \<le> a * 2" using a0 u by (intro mult_left_mono) simp_all
    then have "d \<le> 2 ^ 51" using db(2) a_lt by simp
    moreover have "b * (1 + u) \<le> b * 2" using b0 u by (intro mult_left_mono) simp_all
    then have "m \<le> 2 ^ 51" using mb(2) b_lt by simp
    ultimately have "d * m \<le> 2 ^ 51 * 2 ^ 51"
      using d(2) m(2) by (intro mult_mono) simp_all
    then show ?thesis by simp
  qed
  have dm_norm: "d * m = 0 \<or> 2 powi (- 1022) \<le> d * m"
  proof (cases "a = 0 \<or> b = 0")
    case True
    then have "d = 0 \<or> m = 0" using d(3) m(3) by auto
    then show ?thesis by auto
  next
    case False
    then have "1 / 2 ^ 50 \<le> a" "1 \<le> b" using a_norm b_norm by simp_all
    have half: "1 / 2 \<le> 1 - u" by (simp add: u_def)
    have "a * (1 / 2) \<le> a * (1 - u)"
      using a0 half by (rule mult_left_mono [OF _ _, rotated])
    moreover have "b * (1 / 2) \<le> b * (1 - u)"
      using b0 half by (rule mult_left_mono [OF _ _, rotated])
    ultimately have ha: "a * (1 / 2) \<le> a * (1 - u)" and hb: "b * (1 / 2) \<le> b * (1 - u)" by blast+
    have c51: "(1::real) / 2 ^ 51 = (1 / 2 ^ 50) * (1 / 2)" by simp
    have "(1 / 2 ^ 50) * (1 / 2) \<le> a * (1 / 2)"
      using \<open>1 / 2 ^ 50 \<le> a\<close> by (intro mult_right_mono) simp_all
    then have d51: "1 / 2 ^ 51 \<le> d" using ha db(1) unfolding c51 by linarith
    have "1 * (1 / 2) \<le> b * (1 / 2)"
      using \<open>1 \<le> b\<close> by (intro mult_right_mono) simp_all
    then have m2: "1 / 2 \<le> m" using hb mb(1) by linarith
    from d51 m2 have "(1 / 2 ^ 51) * (1 / 2) \<le> d * m"
      by (intro mult_mono) simp_all
    then show ?thesis using tiny by simp
  qed
  obtain p where p: "to_double (d * m) = Inr p" "0 \<le> p" "\<bar>p - d * m\<bar> \<le> d * m / 2 ^ 53"
    using to_double_ok [OF dm0 dm_norm dm_lt] by blast
  have "\<bar>p - d * m\<bar> \<le> d * m * u" using p(3) by (simp add: u_def)
  note pb = rel_bounds [OF this]
  note three = three_roundings [OF a0 b0 u db mb pb]
  have ab0: "0 \<le> a * b" using a0 b0 by simp
  have lo: "a * b * (1 - 4 * u) \<le> p"
  proof -
    have "a * b * (1 - 4 * u) \<le> a * b * (1 - u) ^ 3"
      using ab0 cube_bounds(1) unfolding u_def by (intro mult_left_mono) simp_all
    with three(1) show ?thesis by linarith
  qed
  have hi: "p \<le> a * b * (1 + 4 * u)"
  proof -
    have "a * b * (1 + u) ^ 3 \<le> a * b * (1 + 4 * u)"
      using ab0 cube_bounds(2) unfolding u_def by (intro mult_left_mono) simp_all
    with three(2) show ?thesis by linarith
  qed
  have x: "a * b = of_int (target * int n) / of_int rate"
    by (simp add: a_def b_def)
  have "of_int (target * int n) < (2::real) ^ 50"
    using tn by (rule real_of_int_less_pow2)
  then have "a * b * of_int rate < 2 ^ 50"
    using r0 by (simp add: x)
  then have "a * b * (4 * u) * (2 * of_int rate) < 1"
    by (simp add: u_def)
  then have small: "a * b * (4 * u) < 1 / (2 * of_int rate)"
    using r0 by (simp add: field_simps)
  have "\<bar>p - a * b\<bar> \<le> a * b * (4 * u)"
    using lo hi by (simp add: abs_le_iff algebra_simps)
  with small have "\<bar>p - a * b\<bar> < 1 / (2 * of_int rate)" by linarith
  moreover have "rate_product target rate n = Inr p"
    using r0 d(1) m(1) p(1) by (simp add: rate_product_def a_def b_def)
  ultimately show ?thesis
    using p(2) x by auto
qed

lemma floor_near_quotient:
  fixes p :: real
  assumes r0: "0 < rate" and close: "\<bar>p - of_int k / of_int rate\<bar> < 1 / (2 * of_int rate)"
  shows "k div rate - 1 \<le> \<lfloor>p\<rfloor>" and "\<lfloor>p\<rfloor> \<le> k div rate"
    and "\<not> rate dvd k \<Longrightarrow> \<lfloor>p\<rfloor> = k div rate"
proof -
  define R :: real where "R = of_int rate"
  define Q :: real where "Q = of_int (k div rate)"
  define F :: real where "F = of_int (k mod rate)"
  define h :: real where "h = 1 / (2 * R)"
  have R1: "1 \<le> R" unfolding R_def using r0 by (rule real_of_int_ge_one)
  have h0: "0 < h" and hR: "1 / R = 2 * h" and h2: "h \<le> 1 / 2"
    using R1 by (simp_all add: h_def field_simps)
  have "of_int k = (of_int (k div rate * rate + k mod rate) :: real)" by simp
  then have "of_int k = Q * R + F" by (simp only: Q_def R_def F_def of_int_add of_int_mult)
  then have x: "of_int k / of_int rate = Q + F / R"
    using R1 by (simp add: R_def field_simps)
  have F0: "0 \<le> F" unfolding F_def using r0 by simp
  have "k mod rate \<le> rate - 1" using r0 pos_mod_bound [of rate k] by linarith
  then have "F \<le> of_int (rate - 1)" unfolding F_def by (simp only: of_int_le_iff)
  then have F1: "F \<le> R - 1" by (simp add: R_def)
  have "F / R \<le> (R - 1) / R" using F1 R1 by (intro divide_right_mono) simp_all
  also have "\<dots> = 1 - 1 / R" using R1 by (simp add: field_simps)
  finally have FR: "F / R \<le> 1 - 2 * h" by (simp add: hR)
  have FR0: "0 \<le> F / R" using F0 R1 by simp
  from close have lo: "Q + F / R - h < p" and hi: "p < Q + F / R + h"
    unfolding x h_def R_def by (simp_all add: abs_less_iff algebra_simps)
  have "p < Q + 1" using hi FR h0 by linarith
  then have "p < of_int (k div rate + 1)" by (simp add: Q_def)
  then have "\<lfloor>p\<rfloor> < k div rate + 1" by (simp only: floor_less_iff)
  then show up: "\<lfloor>p\<rfloor> \<le> k div rate" by simp
  have "Q - 1 < p" using lo FR0 h2 by linarith
  then have "of_int (k div rate - 1) \<le> p" by (simp add: Q_def)
  then show "k div rate - 1 \<le> \<lfloor>p\<rfloor>" by (simp only: le_floor_iff)
  show "\<lfloor>p\<rfloor> = k div rate" if nd: "\<not> rate dvd k"
  proof -
    have "k mod rate \<noteq> 0" using nd by (simp add: dvd_eq_mod_eq_0)
    then have "1 \<le> k mod rate" using r0 pos_mod_sign [of rate k] by linarith
    then have "of_int 1 \<le> F" unfolding F_def by (simp only: of_int_le_iff)
    then have "1 / R \<le> F / R" using R1 by (intro divide_right_mono) simp_all
    then have "Q < p" using lo h0 by (simp add: hR)
    then have "of_int (k div rate) \<le> p" by (simp add: Q_def)
    then have "k div rate \<le> \<lfloor>p\<rfloor>" by (simp only: le_floor_iff)
    with up show ?thesis by simp
  qed
qed

lemma resample_num_near_quotient:
  assumes "0 \<le> target" and "0 < rate" and "target < 2 ^ 50" and "rate < 2 ^ 50"
    and "int n < 2 ^ 50" and "target * int n < 2 ^ 50"
  shows "\<exists>num. resample_num target rate n = Inr num
           \<and> (target * int n) div rate - 1 \<le> num \<and> num \<le> (target * int n) div rate
           \<and> (\<not> rate dvd target * int n \<longrightarrow> num = (target * int n) div rate)"
proof -
  obtain p where p: "rate_product target rate n = Inr p" "0 \<le> p"
      "\<bar>p - of_int (target * int n) / of_int rate\<bar> < 1 / (2 * of_int rate)"
    using rate_product_close [OF assms] by blast
  have "resample_num target rate n = Inr \<lfloor>p\<rfloor>"
    using p(1,2) by (simp add: resample_num_def py_int_def)
  then show ?thesis
    using floor_near_quotient [OF assms(2) p(3)] by auto
qed

lemmas double_eval =
  resampled_length_def signal_resample_def resample_num_def rate_product_def ms_to_samples_def
  to_double_def fl_def expo_def compute_bitlen py_round_def py_int_def Let_def

text \<open>
  Claim C4, as the code has it. The resampled signal has \<open>int(target_rate / r * N)\<close>
  samples: the product, computed in doubles, cut off toward zero and never rounded up.
  For a positive rate and sizes below \<open>2 ^ 50\<close> that is the integer quotient of
  \<open>target_rate * N\<close> by \<open>r\<close> when \<open>r\<close> does not divide \<open>target_rate * N\<close>, and the quotient
  or one less when it does; a length of 0 makes \<open>signal.resample\<close> fail. A rate of 0 raises
  ZeroDivisionError. 16000 samples at 16000 Hz resampled to 8000 Hz are 8000 samples,
  16000 samples at 22050 Hz are 5804, and 77 samples at 1925 Hz resampled to 1000 Hz are
  39, one less than the exact quotient 40.
\<close>

theorem resample_num_truncates:
  "(rate = 0 \<longrightarrow> resampled_length target rate n = Inl ZeroDivisionError)
   \<and> (0 < rate \<and> rate < 2 ^ 50 \<and> 0 \<le> target \<and> target < 2 ^ 50 \<and> int n < 2 ^ 50
        \<and> target * int n < 2 ^ 50 \<longrightarrow>
        (\<exists>num. resample_num target rate n = Inr num
           \<and> (target * int n) div rate - 1 \<le> num \<and> num \<le> (target * int n) div rate
           \<and> (\<not> rate dvd target * int n \<longrightarrow> num = (target * int n) div rate)
           \<and> resampled_length target rate n = (if 0 < num then Inr (nat num) else Inl ValueError)))
   \<and> resampled_length 8000 16000 16000 = Inr 8000
   \<and> resampled_length 8000 22050 16000 = Inr 5804
   \<and> resampled_length 1000 1925 77 = Inr 39"
proof (intro conjI impI)
  show "rate = 0 \<Longrightarrow> resampled_length target rate n = Inl ZeroDivisionError"
    by (simp add: resampled_length_def resample_num_def rate_product_def)
next
  assume h: "0 < rate \<and> rate < 2 ^ 50 \<and> 0 \<le> target \<and> target < 2 ^ 50 \<and> int n < 2 ^ 50
        \<and> target * int n < 2 ^ 50"
  then obtain num where num: "resample_num target rate n = Inr num"
      "(target * int n) div rate - 1 \<le> num" "num \<le> (target * int n) div rate"
      "\<not> rate dvd target * int n \<longrightarrow> num = (target * int n) div rate"
    using resample_num_near_quotient [of target rate n] by blast
  have "n = 0 \<longrightarrow> num \<le> 0" using num(3) by auto
  then have "resampled_length target rate n = (if 0 < num then Inr (nat num) else Inl ValueError)"
    by (auto simp: resampled_length_def num(1) signal_resample_def)
  with num show "\<exists>num. resample_num target rate n = Inr num
           \<and> (target * int n) div rate - 1 \<le> num \<and> num \<le> (target * int n) div rate
           \<and> (\<not> rate dvd target * int n \<longrightarrow> num = (target * int n) div rate)
           \<and> resampled_length target rate n = (if 0 < num then Inr (nat num) else Inl ValueError)"
    by blast
next
  show "resampled_length 8000 16000 16000 = Inr 8000"
    by (simp add: double_eval)
next
  show "resampled_length 8000 22050 16000 = Inr 5804"
    by (simp add: double_eval)
next
  show "resampled_length 1000 1925 77 = Inr 39"
    by (simp add: double_eval)
qed

theorem resample_num_truncates_witness:
  "resampled_length 8000 0 16000 = Inl ZeroDivisionError
   \<and> ((0::int) < 22050 \<and> (22050::int) < 2 ^ 50 \<and> (0::int) \<le> 8000 \<and> (8000::int) < 2 ^ 50
        \<and> int 16000 < 2 ^ 50 \<and> 8000 * int 16000 < 2 ^ 50)
   \<and> \<not> (22050::int) dvd 8000 * int 16000
   \<and> (8000 * int 16000) div 22050 = 5804
   \<and> resample_num 8000 22050 16000 = Inr 5804
   \<and> resampled_length 8000 22050 16000 = Inr 5804"
  using resample_num_truncates [of 0 8000 16000] resample_num_truncates [of 22050 8000 16000]
  by (simp add: double_eval)

text \<open>
  Claim C4 as stated gives the length as \<open>round(target_rate / r * N)\<close>. For 16000 samples
  recorded at 22050 Hz and a target of 8000 Hz the float product is 5804.98...: the
  resampled signal has 5804 samples, rounding the product gives 5805.
\<close>

theorem resample_num_round_counterexample:
  "resampled_length 8000 22050 16000 = Inr 5804
   \<and> map_sum id py_round (rate_product 8000 22050 16000) = Inr 5805"
  by (simp add: double_eval)

subsection \<open>\<open>RandomChop\<close>: padding and cropping\<close>

lemma py_slice_inside:
  assumes "0 \<le> start" and "start + int len \<le> int (length xs)"
  shows "py_slice xs start (start + int len) = take len (drop (nat start) xs)"
proof -
  have le: "nat start + len \<le> length xs"
    using assms by linarith
  have lo: "slice_bound (length xs) start = nat start"
    using assms(1) le by (simp add: slice_bound_def)
  have "nat (start + int len) = nat start + len"
    using assms(1) by (simp add: nat_add_distrib)
  then have hi: "slice_bound (length xs) (start + int len) = nat start + len"
    using assms(1) le by (simp add: slice_bound_def)
  show ?thesis by (simp add: py_slice_def lo hi)
qed

lemma RandomChop_call_long:
  assumes r: "randint_range rnd" and l: "len < length (samples s)"
  shows "RandomChop_call rnd len s =
           Inr \<lparr>sample_rate = sample_rate s,
                samples = take len (drop (nat (rnd 0 (int (length (samples s)) - int len))) (samples s)),
                label = label s\<rparr>"
    and "0 \<le> rnd 0 (int (length (samples s)) - int len)"
    and "rnd 0 (int (length (samples s)) - int len) < int (length (samples s)) - int len"
proof -
  let ?hi = "int (length (samples s)) - int len"
  have pos: "0 < ?hi" using l by simp
  from r pos show ge: "0 \<le> rnd 0 ?hi" and lt: "rnd 0 ?hi < ?hi"
    unfolding randint_range_def by blast+
  have pad: "pad_audio len (samples s) = samples s"
    using l by (simp add: pad_audio_def)
  have sl: "py_slice (samples s) (rnd 0 ?hi) (rnd 0 ?hi + int len)
              = take len (drop (nat (rnd 0 ?hi)) (samples s))"
    using ge lt by (intro py_slice_inside) simp_all
  show "RandomChop_call rnd len s =
           Inr \<lparr>sample_rate = sample_rate s,
                samples = take len (drop (nat (rnd 0 ?hi)) (samples s)), label = label s\<rparr>"
    using l pos by (simp add: RandomChop_call_def pad chop_audio_def np_randint_def sl Let_def)
qed

lemma RandomChop_call_short:
  assumes "length (samples s) \<le> len"
  shows "RandomChop_call rnd len s =
           Inr \<lparr>sample_rate = sample_rate s,
                samples = replicate (len - length (samples s)) 0 @ samples s, label = label s\<rparr>"
  using assms by (simp add: RandomChop_call_def pad_audio_def Let_def)


lemma sum_list_constant: "sum_list (map (\<lambda>x. c) xs) = real (length xs) * c"
  by (induction xs) (simp_all add: algebra_simps)

lemma RandomChop_dist_long:
  assumes l: "len < length (samples s)"
  shows "RandomChop_dist len s =
           Inr (map (\<lambda>k. (\<lparr>sample_rate = sample_rate s,
                              samples = take len (drop (nat k) (samples s)), label = label s\<rparr>,
                            1 / of_int (int (length (samples s)) - int len)))
                    [0..int (length (samples s)) - int len - 1])"
proof -
  let ?hi = "int (length (samples s)) - int len"
  have pos: "0 < ?hi" using l by simp
  have pad: "pad_audio len (samples s) = samples s"
    using l by (simp add: pad_audio_def)
  have crop: "py_slice (samples s) k (k + int len) = take len (drop (nat k) (samples s))"
    if "k \<in> set [0..?hi - 1]" for k
    using that by (intro py_slice_inside) simp_all
  have "map (\<lambda>k. (\<lparr>sample_rate = sample_rate s,
                     samples = py_slice (samples s) k (k + int len), label = label s\<rparr>,
                   1 / real_of_int ?hi)) [0..?hi - 1]
        = map (\<lambda>k. (\<lparr>sample_rate = sample_rate s,
                       samples = take len (drop (nat k) (samples s)), label = label s\<rparr>,
                     1 / real_of_int ?hi)) [0..?hi - 1]"
    using crop by (intro map_cong) simp_all
  then show ?thesis
    using l pos
    by (simp add: RandomChop_dist_def pad chop_audio_dist_def np_randint_dist_def Let_def comp_def)
qed

lemma RandomChop_dist_short:
  assumes "length (samples s) \<le> len"
  shows "RandomChop_dist len s =
           Inr [(\<lparr>sample_rate = sample_rate s,
                   samples = replicate (len - length (samples s)) 0 @ samples s, label = label s\<rparr>, 1)]"
  using assms by (simp add: RandomChop_dist_def pad_audio_def Let_def)

text \<open>
  Claim C3. For raw audio of length \<open>L\<close> and target \<open>T\<close> the call returns, and its
  samples have length exactly \<open>T\<close>; sample rate and label pass through. If \<open>L > T\<close> the
  output of a run is the run of \<open>T\<close> samples of the input that starts at the offset drawn
  by \<open>np.random.randint(0, L - T)\<close>, which lies in \<open>[0, L - T)\<close>; over all runs the call has
  exactly \<open>L - T\<close> outcomes, the crops at the offsets \<open>0, ..., L - T - 1\<close>, each with
  probability \<open>1 / (L - T)\<close>: the offset is uniformly random on \<open>[0, L - T)\<close>. If \<open>L = T\<close> the
  range is empty, nothing is drawn and the output is the input itself (offset 0), with
  probability 1. If \<open>L < T\<close> the last \<open>L\<close> samples of the output are the input and the first
  \<open>T - L\<close> are zero, with probability 1. The output of every run is one of the outcomes
  and the probabilities sum to 1.
\<close>

theorem RandomChop_call_output:
  assumes "randint_range rnd"
  shows "\<exists>out outs. RandomChop_call rnd T s = Inr out \<and> RandomChop_dist T s = Inr outs
           \<and> length (samples out) = T \<and> sample_rate out = sample_rate s \<and> label out = label s
           \<and> (\<exists>pr. 0 < pr \<and> (out, pr) \<in> set outs) \<and> sum_list (map snd outs) = 1
           \<and> (T < length (samples s) \<longrightarrow>
                0 \<le> rnd 0 (int (length (samples s)) - int T)
                \<and> rnd 0 (int (length (samples s)) - int T) < int (length (samples s)) - int T
                \<and> samples out
                    = take T (drop (nat (rnd 0 (int (length (samples s)) - int T))) (samples s))
                \<and> length outs = length (samples s) - T
                \<and> (\<forall>k<length (samples s) - T.
                      outs ! k = (\<lparr>sample_rate = sample_rate s,
                                    samples = take T (drop k (samples s)), label = label s\<rparr>,
                                  1 / real (length (samples s) - T))))
           \<and> (length (samples s) = T \<longrightarrow> samples out = samples s \<and> outs = [(out, 1)])
           \<and> (length (samples s) < T \<longrightarrow>
                drop (T - length (samples s)) (samples out) = samples s
                \<and> take (T - length (samples s)) (samples out) = replicate (T - length (samples s)) 0
                \<and> outs = [(out, 1)])"
proof (cases "T < length (samples s)")
  case True
  let ?hi = "int (length (samples s)) - int T"
  let ?start = "rnd 0 ?hi"
  let ?crop = "\<lambda>k. (\<lparr>sample_rate = sample_rate s,
                      samples = take T (drop (nat k) (samples s)), label = label s\<rparr>,
                    1 / real_of_int ?hi)"
  let ?out = "\<lparr>sample_rate = sample_rate s,
               samples = take T (drop (nat ?start) (samples s)), label = label s\<rparr>"
  let ?outs = "map ?crop [0..?hi - 1]"
  note long = RandomChop_call_long [OF assms True]
  have pos: "0 < ?hi" using True by simp
  have hi: "real_of_int ?hi = real (length (samples s) - T)"
    using True by (simp add: of_nat_diff)
  have call: "RandomChop_call rnd T s = Inr ?out" by (rule long(1))
  have dist: "RandomChop_dist T s = Inr ?outs" by (rule RandomChop_dist_long [OF True])
  have "nat ?start + T \<le> length (samples s)"
    using long(2,3) by linarith
  then have len: "length (samples ?out) = T" by simp
  have drawn: "?start \<in> set [0..?hi - 1]" using long(2,3) by simp
  have mem: "\<exists>pr. 0 < pr \<and> (?out, pr) \<in> set ?outs"
  proof (intro exI conjI)
    show "0 < 1 / real_of_int ?hi" using pos by simp
    show "(?out, 1 / real_of_int ?hi) \<in> set ?outs"
      using drawn by (auto simp: image_iff intro!: bexI [of _ ?start])
  qed
  have n: "length ?outs = length (samples s) - T"
    using True by simp
  have "sum_list (map snd ?outs) = real (length [0..?hi - 1]) * (1 / real_of_int ?hi)"
    by (simp add: comp_def sum_list_constant)
  also have "\<dots> = 1" using pos by simp
  finally have total: "sum_list (map snd ?outs) = 1" .
  have nth: "\<forall>k<length (samples s) - T.
               ?outs ! k = (\<lparr>sample_rate = sample_rate s,
                              samples = take T (drop k (samples s)), label = label s\<rparr>,
                            1 / real (length (samples s) - T))"
  proof (intro allI impI)
    fix k assume k: "k < length (samples s) - T"
    then have "[0..?hi - 1] ! k = 0 + int k" by (intro nth_upto) simp
    moreover have "k < length [0..?hi - 1]" using k by simp
    ultimately have "?outs ! k = ?crop (int k)" by (simp only: nth_map) simp
    then show "?outs ! k = (\<lparr>sample_rate = sample_rate s,
                              samples = take T (drop k (samples s)), label = label s\<rparr>,
                            1 / real (length (samples s) - T))"
      using True by (simp add: of_nat_diff)
  qed
  show ?thesis
    using True call dist len mem total long(2,3) n nth
    by (intro exI [of _ ?out] exI [of _ ?outs]) simp
next
  case False
  then have le: "length (samples s) \<le> T" by simp
  show ?thesis
    using le by (simp add: RandomChop_call_short RandomChop_dist_short)
qed

theorem RandomChop_call_output_witness:
  "randint_range (\<lambda>low high. high - 1)
   \<and> RandomChop_call (\<lambda>low high. high - 1) 3
        \<lparr>sample_rate = 16000, samples = [1, 2, 3, 4, 5], label = [1]\<rparr>
       = Inr \<lparr>sample_rate = 16000, samples = [2, 3, 4], label = [1]\<rparr>
   \<and> RandomChop_dist 3 \<lparr>sample_rate = 16000, samples = [1, 2, 3, 4, 5], label = [1]\<rparr>
       = Inr [(\<lparr>sample_rate = 16000, samples = [1, 2, 3], label = [1]\<rparr>, 1 / 2),
              (\<lparr>sample_rate = 16000, samples = [2, 3, 4], label = [1]\<rparr>, 1 / 2)]
   \<and> RandomChop_call (\<lambda>low high. high - 1) 3 \<lparr>sample_rate = 16000, samples = [1, 2, 3], label = [1]\<rparr>
       = Inr \<lparr>sample_rate = 16000, samples = [1, 2, 3], label = [1]\<rparr>
   \<and> RandomChop_dist 3 \<lparr>sample_rate = 16000, samples = [1, 2, 3], label = [1]\<rparr>
       = Inr [(\<lparr>sample_rate = 16000, samples = [1, 2, 3], label = [1]\<rparr>, 1)]
   \<and> RandomChop_call (\<lambda>low high. high - 1) 3 \<lparr>sample_rate = 16000, samples = [7], label = [1]\<rparr>
       = Inr \<lparr>sample_rate = 16000, samples = [0, 0, 7], label = [1]\<rparr>
   \<and> RandomChop_dist 3 \<lparr>sample_rate = 16000, samples = [7], label = [1]\<rparr>
       = Inr [(\<lparr>sample_rate = 16000, samples = [0, 0, 7], label = [1]\<rparr>, 1)]"
proof -
  have r: "randint_range (\<lambda>low high. high - 1)"
    by (simp add: randint_range_def)
  have up: "[0..(1::int)] = [0, 1]"
    by (simp add: upto.simps)
  show ?thesis
    using r
      RandomChop_call_output [OF r, of 3 "\<lparr>sample_rate = 16000, samples = [1, 2, 3, 4, 5], label = [1]\<rparr>"]
      RandomChop_call_output [OF r, of 3 "\<lparr>sample_rate = 16000, samples = [1, 2, 3], label = [1]\<rparr>"]
      RandomChop_call_output [OF r, of 3 "\<lparr>sample_rate = 16000, samples = [7], label = [1]\<rparr>"]
    by (simp add: RandomChop_call_def RandomChop_dist_def pad_audio_def chop_audio_def
          chop_audio_dist_def np_randint_def np_randint_dist_def py_slice_def slice_bound_def
          Let_def eval_nat_numeral up)
qed

subsection \<open>The shape of the spectrogram\<close>

lemma RandomChop_call_Inr:
  assumes "randint_range rnd"
  shows "\<exists>out. RandomChop_call rnd len s = Inr out \<and> length (samples out) = len
           \<and> sample_rate out = sample_rate s \<and> label out = label s"
proof (cases "len < length (samples s)")
  case True
  note long = RandomChop_call_long [OF assms True]
  have "nat (rnd 0 (int (length (samples s)) - int len)) + len \<le> length (samples s)"
    using long(2,3) by linarith
  then show ?thesis
    using long(1) by simp
next
  case False
  then show ?thesis
    by (simp add: RandomChop_call_short)
qed

lemma compose3_shape:
  assumes "randint_range rnd"
  shows "map_sum id spec_shape (compose3 rnd len target s)
           = (case resampled_length target (sample_rate s) len of
                Inl e \<Rightarrow> Inl e
              | Inr n \<Rightarrow>
                  (case log_specgram_shape (int n) target 20 10 of
                     Inl e \<Rightarrow> Inl e
                   | Inr (time_bins, freq_bins) \<Rightarrow> Inr (1, time_bins, freq_bins)))"
proof -
  obtain out where out: "RandomChop_call rnd len s = Inr out" "length (samples out) = len"
      "sample_rate out = sample_rate s"
    using RandomChop_call_Inr [OF assms, of len s] by blast
  show ?thesis
    by (simp add: compose3_def out Specgram_call_def ToTensor_call_def split: sum.splits prod.splits)
qed

lemma default_shape_16k:
  "(case resampled_length 8000 16000 16000 of
      Inl e \<Rightarrow> Inl e
    | Inr n \<Rightarrow>
        (case log_specgram_shape (int n) 8000 20 10 of
           Inl e \<Rightarrow> Inl e
         | Inr (time_bins, freq_bins) \<Rightarrow> Inr (1, time_bins, freq_bins))) = Inr (1, 99, 81)"
  by (simp add: double_eval log_specgram_shape_def spectrogram_shape_def)

text \<open>
  Claim C5, as the code has it. For a fixed target length of \<open>RandomChop\<close>, a fixed target
  rate of \<open>Specgram\<close> and a fixed original sample rate, the chain gives the same outcome
  and the same shape \<open>(1, time_bins, freq_bins)\<close> for every file, whatever its duration,
  its content and the offset drawn. With the notebook's defaults a file recorded at
  16000 Hz gives the shape \<open>(1, 99, 81)\<close>.
\<close>

theorem compose3_shape_fixed_rate:
  assumes "randint_range rnd1" and "randint_range rnd2" and "sample_rate s1 = sample_rate s2"
  shows "map_sum id spec_shape (compose3 rnd1 len target s1)
           = map_sum id spec_shape (compose3 rnd2 len target s2)
         \<and> (sample_rate s1 = 16000 \<longrightarrow>
              map_sum id spec_shape (data_transform rnd1 s1) = Inr (1, 99, 81))"
proof
  show "map_sum id spec_shape (compose3 rnd1 len target s1)
          = map_sum id spec_shape (compose3 rnd2 len target s2)"
    by (simp add: compose3_shape [OF assms(1)] compose3_shape [OF assms(2)] assms(3))
next
  show "sample_rate s1 = 16000 \<longrightarrow> map_sum id spec_shape (data_transform rnd1 s1) = Inr (1, 99, 81)"
  proof
    assume "sample_rate s1 = 16000"
    then show "map_sum id spec_shape (data_transform rnd1 s1) = Inr (1, 99, 81)"
      unfolding data_transform_def compose3_shape [OF assms(1)] by (simp only: default_shape_16k)
  qed
qed

theorem compose3_shape_fixed_rate_witness:
  "randint_range (\<lambda>low high. low) \<and> randint_range (\<lambda>low high. high - 1)
   \<and> sample_rate \<lparr>sample_rate = 16000, samples = [1, 2, 3], label = [1]\<rparr>
       = sample_rate \<lparr>sample_rate = 16000, samples = replicate 20000 5, label = [0, 1]\<rparr>
   \<and> map_sum id spec_shape
        (compose3 (\<lambda>low high. low) 16000 8000 \<lparr>sample_rate = 16000, samples = [1, 2, 3], label = [1]\<rparr>)
       = map_sum id spec_shape
          (compose3 (\<lambda>low high. high - 1) 16000 8000
             \<lparr>sample_rate = 16000, samples = replicate 20000 5, label = [0, 1]\<rparr>)
   \<and> map_sum id spec_shape
        (data_transform (\<lambda>low high. low) \<lparr>sample_rate = 16000, samples = [1, 2, 3], label = [1]\<rparr>)
       = Inr (1, 99, 81)"
proof -
  have r1: "randint_range (\<lambda>low high. low)"
    by (simp add: randint_range_def)
  have r2: "randint_range (\<lambda>low high. high - 1)"
    by (simp add: randint_range_def)
  have eq: "sample_rate \<lparr>sample_rate = 16000, samples = [1, 2, 3], label = [1]\<rparr>
       = sample_rate \<lparr>sample_rate = 16000, samples = replicate 20000 5, label = [0, 1]\<rparr>"
    by simp
  show ?thesis
    using r1 r2 compose3_shape_fixed_rate [OF r1 r2 eq, of 16000 8000]
    by simp
qed

text \<open>
  Claim C5 as stated lets the original sample rate vary. \<open>RandomChop\<close> fixes the number of
  samples, not the duration, and the resampled length is proportional to the ratio of
  the rates: with the defaults a 16000 Hz file gives 99 time bins, an 8000 Hz file 199.
\<close>

theorem data_transform_shape_counterexample:
  "data_transform (\<lambda>low high. low) \<lparr>sample_rate = 16000, samples = replicate 16000 0, label = [1]\<rparr>
     = Inr \<lparr>spec_shape = (1, 99, 81), spec_label = [1]\<rparr>
   \<and> data_transform (\<lambda>low high. low) \<lparr>sample_rate = 8000, samples = replicate 16000 0, label = [1]\<rparr>
     = Inr \<lparr>spec_shape = (1, 199, 81), spec_label = [1]\<rparr>"
  by (simp add: data_transform_def compose3_def RandomChop_call_def pad_audio_def Specgram_call_def
        log_specgram_shape_def spectrogram_shape_def ToTensor_call_def double_eval)

subsection \<open>Label vectors\<close>

lemma dummy_columns_set: "set (dummy_columns vs) = set vs"
  by (simp add: dummy_columns_def)

lemma dummy_columns_distinct: "distinct (dummy_columns vs)"
  by (simp add: dummy_columns_def)

lemma dummy_columns_sorted: "sorted (dummy_columns vs)"
  by (simp add: dummy_columns_def)

lemma dummy_columns_length: "length (dummy_columns vs) = card (set vs)"
  by (simp add: dummy_columns_def length_remdups_card_conv)

lemma dummy_columns_cong: "set vs = set ws \<Longrightarrow> dummy_columns vs = dummy_columns ws"
  unfolding dummy_columns_def sorted_list_of_set_sort_remdups [symmetric] by simp

lemma indicator_sum:
  "distinct cs \<Longrightarrow> sum_list (map (\<lambda>c. if v = c then 1 else 0) cs) = (if v \<in> set cs then 1 else (0::real))"
  by (induction cs) auto

lemma indicator_position:
  assumes "distinct cs" and "v \<in> set cs"
  shows "\<exists>k<length cs. cs ! k = v \<and> (\<forall>j<length cs. j \<noteq> k \<longrightarrow> cs ! j \<noteq> v)"
proof -
  from assms(2) obtain k where k: "k < length cs" "cs ! k = v"
    by (auto simp: in_set_conv_nth)
  have "\<forall>j<length cs. j \<noteq> k \<longrightarrow> cs ! j \<noteq> v"
    using assms(1) k by (auto simp: nth_eq_iff_index_eq)
  with k show ?thesis by blast
qed

lemma get_dummies_length: "length (get_dummies vs) = length vs"
  by (simp add: get_dummies_def)

lemma get_dummies_nth:
  "i < length vs \<Longrightarrow> get_dummies vs ! i = map (\<lambda>c. if vs ! i = c then 1 else 0) (dummy_columns vs)"
  by (simp add: get_dummies_def)

lemma get_dummies_row_one_hot:
  assumes "i < length vs"
  shows "sum_list (get_dummies vs ! i) = 1"
    and "\<exists>k<length (get_dummies vs ! i). get_dummies vs ! i ! k = 1
           \<and> (\<forall>j<length (get_dummies vs ! i). j \<noteq> k \<longrightarrow> get_dummies vs ! i ! j = 0)"
proof -
  let ?cs = "dummy_columns vs"
  have mem: "vs ! i \<in> set ?cs"
    using assms by (simp add: dummy_columns_set)
  show "sum_list (get_dummies vs ! i) = 1"
    using assms mem by (simp add: get_dummies_nth indicator_sum dummy_columns_distinct)
  obtain k where k: "k < length ?cs" "?cs ! k = vs ! i" "\<forall>j<length ?cs. j \<noteq> k \<longrightarrow> ?cs ! j \<noteq> vs ! i"
    using indicator_position [OF dummy_columns_distinct mem] by blast
  have "get_dummies vs ! i ! k = 1"
    using assms k(1,2) by (simp add: get_dummies_nth)
  moreover have "\<forall>j<length (get_dummies vs ! i). j \<noteq> k \<longrightarrow> get_dummies vs ! i ! j = 0"
    using assms k(3) by (auto simp: get_dummies_nth)
  moreover have "k < length (get_dummies vs ! i)"
    using assms k(1) by (simp add: get_dummies_nth)
  ultimately show "\<exists>k<length (get_dummies vs ! i). get_dummies vs ! i ! k = 1
           \<and> (\<forall>j<length (get_dummies vs ! i). j \<noteq> k \<longrightarrow> get_dummies vs ! i ! j = 0)"
    by blast
qed

lemma canonical_legal: "canonical l \<in> set legal_labels"
  by (simp add: canonical_def legal_labels_def)

lemma canonical_classes_card: "card (canonical ` set ls) \<le> 12"
proof -
  have "canonical ` set ls \<subseteq> set legal_labels"
    using canonical_legal by auto
  then have "card (canonical ` set ls) \<le> card (set legal_labels)"
    by (intro card_mono) simp_all
  also have "\<dots> \<le> length legal_labels"
    by (rule card_length)
  also have "\<dots> = 12"
    by (simp add: legal_labels_def)
  finally show ?thesis .
qed


lemma transform_labels_nth:
  "i < length ls \<Longrightarrow>
     transform_labels ls ! i
       = map (\<lambda>c. if canonical (ls ! i) = c then 1 else 0) (dummy_columns (map canonical ls))"
  by (simp add: transform_labels_def get_dummies_nth)

text \<open>
  Claim C1, as the code has it. The columns of the label vectors are the canonical
  classes present in the view, in strictly ascending lexicographic order; there are as
  many as there are distinct classes in the view, at most 12. Every row has that
  length, and its entry in column \<open>k\<close> is 1 exactly when column \<open>k\<close> is the row's canonical
  class. Two views give every class the same position when the same set of canonical
  classes occurs in both.
\<close>

theorem transform_labels_columns:
  "sorted_wrt (<) (dummy_columns (map canonical ls))
   \<and> set (dummy_columns (map canonical ls)) = canonical ` set ls
   \<and> length (dummy_columns (map canonical ls)) = card (canonical ` set ls)
   \<and> length (dummy_columns (map canonical ls)) \<le> 12
   \<and> length (transform_labels ls) = length ls
   \<and> (\<forall>i<length ls.
         length (transform_labels ls ! i) = length (dummy_columns (map canonical ls))
         \<and> (\<forall>k<length (dummy_columns (map canonical ls)).
               transform_labels ls ! i ! k
                 = (if dummy_columns (map canonical ls) ! k = canonical (ls ! i) then 1 else 0)))
   \<and> (canonical ` set ls' = canonical ` set ls \<longrightarrow>
         dummy_columns (map canonical ls') = dummy_columns (map canonical ls))"
proof (intro conjI)
  show "sorted_wrt (<) (dummy_columns (map canonical ls))"
    by (simp add: strict_sorted_iff dummy_columns_sorted dummy_columns_distinct)
  show "set (dummy_columns (map canonical ls)) = canonical ` set ls"
    by (simp add: dummy_columns_set)
  show len: "length (dummy_columns (map canonical ls)) = card (canonical ` set ls)"
    by (simp add: dummy_columns_length)
  show "length (dummy_columns (map canonical ls)) \<le> 12"
    unfolding len by (rule canonical_classes_card)
  show "length (transform_labels ls) = length ls"
    by (simp add: transform_labels_def get_dummies_length)
  show "\<forall>i<length ls.
         length (transform_labels ls ! i) = length (dummy_columns (map canonical ls))
         \<and> (\<forall>k<length (dummy_columns (map canonical ls)).
               transform_labels ls ! i ! k
                 = (if dummy_columns (map canonical ls) ! k = canonical (ls ! i) then 1 else 0))"
    by (auto simp: transform_labels_nth)
  show "canonical ` set ls' = canonical ` set ls \<longrightarrow>
         dummy_columns (map canonical ls') = dummy_columns (map canonical ls)"
    by (auto intro: dummy_columns_cong)
qed

theorem transform_labels_columns_witness:
  "canonical ` set [''banana'', ''yes'', ''_background_noise_'']
     = canonical ` set [''yes'', ''yes'', ''yes'', ''_background_noise_'', ''banana'']
   \<and> dummy_columns (map canonical [''banana'', ''yes'', ''_background_noise_''])
       = [''silence'', ''unknown'', ''yes'']
   \<and> dummy_columns (map canonical [''yes'', ''yes'', ''yes'', ''_background_noise_'', ''banana''])
       = [''silence'', ''unknown'', ''yes'']
   \<and> (0::nat) < length [''yes'', ''yes'', ''yes'', ''_background_noise_'', ''banana'']
   \<and> transform_labels [''yes'', ''yes'', ''yes'', ''_background_noise_'', ''banana''] ! 0 = [0, 0, 1]"
  using transform_labels_columns [of "[''yes'', ''yes'', ''yes'', ''_background_noise_'', ''banana'']"
          "[''banana'', ''yes'', ''_background_noise_'']"]
  by (simp add: transform_labels_def get_dummies_def dummy_columns_def canonical_def legal_labels_def)

text \<open>
  Claim C1 as stated has vectors of length 12 in the declared order of the vocabulary,
  whatever classes occur. For the corpus \<open>yes\<close> (3 files), \<open>_background_noise_\<close>,
  \<open>banana\<close> the vectors have length 3 and \<open>yes\<close>, first in the vocabulary, is the last
  column; a corpus of \<open>yes\<close> and \<open>no\<close> puts \<open>no\<close> first; a subset with only \<open>yes\<close> has
  vectors of length 1, so \<open>yes\<close> moves from one view to the other.
\<close>

theorem transform_labels_counterexample:
  "transform_labels [''yes'', ''yes'', ''yes'', ''_background_noise_'', ''banana'']
     = [[0, 0, 1], [0, 0, 1], [0, 0, 1], [1, 0, 0], [0, 1, 0]]
   \<and> legal_labels ! 0 = ''yes''
   \<and> transform_labels [''yes'', ''no''] = [[0, 1], [1, 0]]
   \<and> transform_labels [''yes''] = [[1]]"
  by (simp add: transform_labels_def get_dummies_def dummy_columns_def canonical_def legal_labels_def)

subsection \<open>Building and indexing a view\<close>

lemma unzip2_Inr:
  "unzip2 vs = Inr (a, b) \<longleftrightarrow> vs \<noteq> [] \<and> a = map fst vs \<and> b = map snd vs"
  by (cases vs) (auto simp: unzip2_def)

lemma init_from_subset_Inr:
  assumes "init_from_subset d sub = Inr ds"
  shows "labels ds = map fst (filter (\<lambda>parts. is_needed sub (snd parts)) (glob_parts d ''wav''))"
    and "sounds ds = map snd (filter (\<lambda>parts. is_needed sub (snd parts)) (glob_parts d ''wav''))"
    and "transformed_labels ds = transform_labels (labels ds)"
    and "filter (\<lambda>parts. is_needed sub (snd parts)) (glob_parts d ''wav'') \<noteq> []"
  using assms
  by (auto simp: init_from_subset_def list_of_wavs_def unzip2_Inr split: sum.splits prod.splits)

lemma init_from_subset_nonempty:
  assumes "filter (\<lambda>parts. is_needed sub (snd parts)) (glob_parts d ''wav'') \<noteq> []"
  shows "\<exists>ds. init_from_subset d sub = Inr ds"
proof -
  let ?kept = "filter (\<lambda>parts. is_needed sub (snd parts)) (glob_parts d ''wav'')"
  have "unzip2 ?kept = Inr (map fst ?kept, map snd ?kept)"
    using assms by (simp add: unzip2_Inr)
  then show ?thesis
    by (simp add: init_from_subset_def list_of_wavs_def)
qed

lemma SoundDataset_init_Inr:
  "SoundDataset_init d subset_text = Inr ds \<Longrightarrow> \<exists>sub. init_from_subset d sub = Inr ds"
  by (auto simp: SoundDataset_init_def split: option.splits sum.splits)

lemma init_lengths:
  assumes "SoundDataset_init d subset_text = Inr ds"
  shows "length (sounds ds) = length (labels ds)"
    and "length (transformed_labels ds) = length (labels ds)"
    and "transformed_labels ds = transform_labels (labels ds)"
proof -
  obtain sub where sub: "init_from_subset d sub = Inr ds"
    using SoundDataset_init_Inr [OF assms] by blast
  show "length (sounds ds) = length (labels ds)"
    by (simp add: init_from_subset_Inr(1,2) [OF sub])
  show "transformed_labels ds = transform_labels (labels ds)"
    by (rule init_from_subset_Inr(3) [OF sub])
  then show "length (transformed_labels ds) = length (labels ds)"
    by (simp add: transform_labels_def get_dummies_length)
qed

lemma py_index_out: "i < - int (length xs) \<or> int (length xs) \<le> i \<Longrightarrow> py_index xs i = Inl IndexError"
  by (auto simp: py_index_def)

lemma py_index_neg:
  "- int (length xs) \<le> i \<Longrightarrow> i < 0 \<Longrightarrow> py_index xs i = py_index xs (i + int (length xs))"
  by (simp add: py_index_def add.commute)

lemma py_index_Inr: "py_index xs i = Inr x \<Longrightarrow> \<exists>k<length xs. x = xs ! k"
proof -
  assume a: "py_index xs i = Inr x"
  show ?thesis
  proof (cases "0 \<le> i \<and> i < int (length xs)")
    case True
    then have "x = xs ! nat i" using a by (simp add: py_index_def)
    moreover have "nat i < length xs" using True by linarith
    ultimately show ?thesis by blast
  next
    case False
    then have n: "i < 0 \<and> - int (length xs) \<le> i" and "x = xs ! nat (int (length xs) + i)"
      using a by (auto simp: py_index_def split: if_splits)
    moreover have "nat (int (length xs) + i) < length xs" using n by linarith
    ultimately show ?thesis by blast
  qed
qed

lemma getitem_Inr:
  assumes "getitem ds wav_read transform idx = Inr r"
  shows "\<exists>rate xs v. py_index (transformed_labels ds) idx = Inr v
           \<and> transform \<lparr>sample_rate = rate, samples = xs, label = v\<rparr> = Inr r"
  using assms by (auto simp: getitem_def split: sum.splits prod.splits)

lemma RandomChop_call_label: "RandomChop_call rnd len s = Inr out \<Longrightarrow> label out = label s"
  by (auto simp: RandomChop_call_def Let_def split: if_splits sum.splits)

lemma Specgram_call_label: "Specgram_call target s = Inr out \<Longrightarrow> spec_label out = label s"
  by (auto simp: Specgram_call_def split: sum.splits prod.splits)

lemma data_transform_label: "data_transform rnd s = Inr out \<Longrightarrow> spec_label out = label s"
  by (auto simp: data_transform_def compose3_def ToTensor_call_def
        split: sum.splits dest!: RandomChop_call_label Specgram_call_label)

text \<open>
  Claim C8. Every label vector that \<open>__getitem__\<close> returns from a constructed view is
  one-hot: its entries sum to 1, one entry is 1 and all others are 0. This holds for the
  sample as read (\<open>transform=None\<close>) and after the notebook's transform chain, which
  passes the label through.
\<close>

theorem getitem_label_one_hot:
  assumes "SoundDataset_init d subset_text = Inr ds"
  shows "(getitem ds wav_read Inr idx = Inr s \<longrightarrow>
            sum_list (label s) = 1
            \<and> (\<exists>k<length (label s). label s ! k = 1
                  \<and> (\<forall>j<length (label s). j \<noteq> k \<longrightarrow> label s ! j = 0)))
         \<and> (getitem ds wav_read (data_transform rnd) idx = Inr t \<longrightarrow>
              sum_list (spec_label t) = 1
              \<and> (\<exists>k<length (spec_label t). spec_label t ! k = 1
                    \<and> (\<forall>j<length (spec_label t). j \<noteq> k \<longrightarrow> spec_label t ! j = 0)))"
proof -
  have row: "sum_list v = 1 \<and> (\<exists>k<length v. v ! k = 1 \<and> (\<forall>j<length v. j \<noteq> k \<longrightarrow> v ! j = 0))"
    if pv: "py_index (transformed_labels ds) idx = Inr v" for v
  proof -
    have tl: "transformed_labels ds = get_dummies (map canonical (labels ds))"
      using init_lengths(3) [OF assms] by (simp add: transform_labels_def)
    obtain i where i: "i < length (transformed_labels ds)" "v = transformed_labels ds ! i"
      using py_index_Inr [OF pv] by blast
    have "i < length (map canonical (labels ds))"
      using i(1) by (simp add: tl get_dummies_length)
    then show ?thesis
      unfolding i(2) tl by (intro conjI get_dummies_row_one_hot)
  qed
  show ?thesis
  proof (intro conjI impI)
    assume "getitem ds wav_read Inr idx = Inr s"
    then obtain v where "py_index (transformed_labels ds) idx = Inr v" "label s = v"
      by (auto dest!: getitem_Inr)
    then show "sum_list (label s) = 1" 
      and "\<exists>k<length (label s). label s ! k = 1 \<and> (\<forall>j<length (label s). j \<noteq> k \<longrightarrow> label s ! j = 0)"
      using row by blast+
  next
    assume "getitem ds wav_read (data_transform rnd) idx = Inr t"
    then obtain v where "py_index (transformed_labels ds) idx = Inr v" "spec_label t = v"
      by (auto dest!: getitem_Inr data_transform_label)
    then show "sum_list (spec_label t) = 1" 
      and "\<exists>k<length (spec_label t). spec_label t ! k = 1
             \<and> (\<forall>j<length (spec_label t). j \<noteq> k \<longrightarrow> spec_label t ! j = 0)"
      using row by blast+
  qed
qed

lemma init_two_folders:
  "SoundDataset_init [(''yes'', [''a.wav'']), (''no'', [''b.wav'', ''notes.txt''])] None
     = Inr \<lparr>directory = [(''yes'', [''a.wav'']), (''no'', [''b.wav'', ''notes.txt''])], subset = None,
            labels = [''yes'', ''no''], sounds = [''a.wav'', ''b.wav''],
            transformed_labels = [[0, 1], [1, 0]]\<rparr>"
  by (simp add: SoundDataset_init_def init_from_subset_def list_of_wavs_def glob_parts_def unzip2_def
        is_needed_def endswith_def transform_labels_def get_dummies_def dummy_columns_def
        canonical_def legal_labels_def)

theorem getitem_label_one_hot_witness:
  "SoundDataset_init [(''yes'', [''a.wav'']), (''no'', [''b.wav'', ''notes.txt''])] None
     = Inr \<lparr>directory = [(''yes'', [''a.wav'']), (''no'', [''b.wav'', ''notes.txt''])], subset = None,
            labels = [''yes'', ''no''], sounds = [''a.wav'', ''b.wav''],
            transformed_labels = [[0, 1], [1, 0]]\<rparr>
   \<and> getitem \<lparr>directory = [(''yes'', [''a.wav'']), (''no'', [''b.wav'', ''notes.txt''])], subset = None,
            labels = [''yes'', ''no''], sounds = [''a.wav'', ''b.wav''],
            transformed_labels = [[0, 1], [1, 0]]\<rparr>
        (\<lambda>folder name. Inr (16000, [1, 2, 3])) Inr 0
       = Inr \<lparr>sample_rate = 16000, samples = [1, 2, 3], label = [0, 1]\<rparr>
   \<and> getitem \<lparr>directory = [(''yes'', [''a.wav'']), (''no'', [''b.wav'', ''notes.txt''])], subset = None,
            labels = [''yes'', ''no''], sounds = [''a.wav'', ''b.wav''],
            transformed_labels = [[0, 1], [1, 0]]\<rparr>
        (\<lambda>folder name. Inr (16000, [1, 2, 3])) (data_transform (\<lambda>low high. low)) 0
       = Inr \<lparr>spec_shape = (1, 99, 81), spec_label = [0, 1]\<rparr>
   \<and> sum_list [0, 1 :: real] = 1
   \<and> (\<exists>k<length [0, 1 :: real]. [0, 1 :: real] ! k = 1
         \<and> (\<forall>j<length [0, 1 :: real]. j \<noteq> k \<longrightarrow> [0, 1 :: real] ! j = 0))"
proof -
  let ?ds = "\<lparr>directory = [(''yes'', [''a.wav'']), (''no'', [''b.wav'', ''notes.txt''])], subset = None,
            labels = [''yes'', ''no''], sounds = [''a.wav'', ''b.wav''],
            transformed_labels = [[0, 1], [1, 0]]\<rparr>"
  let ?rd = "\<lambda>(folder::string) (name::string). (Inr (16000, [1, 2, 3]) :: error + int \<times> int list)"
  have g1: "getitem ?ds ?rd Inr 0 = Inr \<lparr>sample_rate = 16000, samples = [1, 2, 3], label = [0, 1]\<rparr>"
    by (simp add: getitem_def py_index_def)
  have g2: "getitem ?ds ?rd (data_transform (\<lambda>low high. low)) 0
              = Inr \<lparr>spec_shape = (1, 99, 81), spec_label = [0, 1]\<rparr>"
    by (simp add: getitem_def py_index_def data_transform_def compose3_def RandomChop_call_def
          pad_audio_def Specgram_call_def log_specgram_shape_def spectrogram_shape_def
          ToTensor_call_def double_eval)
  show ?thesis
    using getitem_label_one_hot [OF init_two_folders, of ?rd 0
            "\<lparr>sample_rate = 16000, samples = [1, 2, 3], label = [0, 1]\<rparr>" "\<lambda>low high. low"
            "\<lparr>spec_shape = (1, 99, 81), spec_label = [0, 1]\<rparr>"]
    by (simp only: init_two_folders g1 g2 simp_thms sample.simps specgram_sample.simps)
qed

lemma getitem_cong_index:
  assumes "py_index (labels ds) i = py_index (labels ds) j"
    and "py_index (sounds ds) i = py_index (sounds ds) j"
    and "py_index (transformed_labels ds) i = py_index (transformed_labels ds) j"
  shows "getitem ds wav_read transform i = getitem ds wav_read transform j"
  unfolding getitem_def assms by (rule refl)

text \<open>
  Claim C7, as the code has it. For a constructed view of length \<open>n\<close>, an index below
  \<open>-n\<close> or from \<open>n\<close> on fails with IndexError. An index in \<open>[-n, 0)\<close> is not rejected: it
  gives what the index plus \<open>n\<close> gives, the entry counted from the end.
\<close>

theorem getitem_index_bounds:
  assumes "SoundDataset_init d subset_text = Inr ds"
  shows "(idx < - int (SoundDataset_len ds) \<or> int (SoundDataset_len ds) \<le> idx \<longrightarrow>
            getitem ds wav_read transform idx = Inl IndexError)
         \<and> (- int (SoundDataset_len ds) \<le> idx \<and> idx < 0 \<longrightarrow>
              getitem ds wav_read transform idx
                = getitem ds wav_read transform (idx + int (SoundDataset_len ds)))"
proof (intro conjI impI)
  assume "idx < - int (SoundDataset_len ds) \<or> int (SoundDataset_len ds) \<le> idx"
  then have "py_index (labels ds) idx = Inl IndexError"
    unfolding SoundDataset_len_def by (rule py_index_out)
  then show "getitem ds wav_read transform idx = Inl IndexError"
    by (simp add: getitem_def)
next
  assume a: "- int (SoundDataset_len ds) \<le> idx \<and> idx < 0"
  note len = init_lengths(1,2) [OF assms]
  have "py_index (labels ds) idx = py_index (labels ds) (idx + int (length (labels ds)))"
    using a by (intro py_index_neg) (simp_all add: SoundDataset_len_def)
  moreover have "py_index (sounds ds) idx = py_index (sounds ds) (idx + int (length (sounds ds)))"
    using a by (intro py_index_neg) (simp_all add: SoundDataset_len_def len)
  moreover have "py_index (transformed_labels ds) idx
                   = py_index (transformed_labels ds) (idx + int (length (transformed_labels ds)))"
    using a by (intro py_index_neg) (simp_all add: SoundDataset_len_def len)
  ultimately show "getitem ds wav_read transform idx
                = getitem ds wav_read transform (idx + int (SoundDataset_len ds))"
    unfolding SoundDataset_len_def using len by (intro getitem_cong_index) simp_all
qed

theorem getitem_index_bounds_witness:
  "SoundDataset_init [(''yes'', [''a.wav'']), (''no'', [''b.wav'', ''notes.txt''])] None
     = Inr \<lparr>directory = [(''yes'', [''a.wav'']), (''no'', [''b.wav'', ''notes.txt''])], subset = None,
            labels = [''yes'', ''no''], sounds = [''a.wav'', ''b.wav''],
            transformed_labels = [[0, 1], [1, 0]]\<rparr>
   \<and> getitem \<lparr>directory = [(''yes'', [''a.wav'']), (''no'', [''b.wav'', ''notes.txt''])], subset = None,
            labels = [''yes'', ''no''], sounds = [''a.wav'', ''b.wav''],
            transformed_labels = [[0, 1], [1, 0]]\<rparr>
        (\<lambda>folder name. Inr (16000, [1, 2, 3])) Inr 2
       = (Inl IndexError :: error + sample)
   \<and> getitem \<lparr>directory = [(''yes'', [''a.wav'']), (''no'', [''b.wav'', ''notes.txt''])], subset = None,
            labels = [''yes'', ''no''], sounds = [''a.wav'', ''b.wav''],
            transformed_labels = [[0, 1], [1, 0]]\<rparr>
        (\<lambda>folder name. Inr (16000, [1, 2, 3])) Inr (- 3)
       = (Inl IndexError :: error + sample)
   \<and> getitem \<lparr>directory = [(''yes'', [''a.wav'']), (''no'', [''b.wav'', ''notes.txt''])], subset = None,
            labels = [''yes'', ''no''], sounds = [''a.wav'', ''b.wav''],
            transformed_labels = [[0, 1], [1, 0]]\<rparr>
        (\<lambda>folder name. Inr (16000, [1, 2, 3])) Inr (- 2)
       = getitem \<lparr>directory = [(''yes'', [''a.wav'']), (''no'', [''b.wav'', ''notes.txt''])], subset = None,
            labels = [''yes'', ''no''], sounds = [''a.wav'', ''b.wav''],
            transformed_labels = [[0, 1], [1, 0]]\<rparr>
        (\<lambda>folder name. Inr (16000, [1, 2, 3])) Inr 0"
proof -
  let ?ds = "\<lparr>directory = [(''yes'', [''a.wav'']), (''no'', [''b.wav'', ''notes.txt''])], subset = None,
            labels = [''yes'', ''no''], sounds = [''a.wav'', ''b.wav''],
            transformed_labels = [[0, 1], [1, 0]]\<rparr>"
  let ?rd = "\<lambda>(folder::string) (name::string). (Inr (16000, [1, 2, 3]) :: error + int \<times> int list)"
  have n: "SoundDataset_len ?ds = 2"
    by (simp add: SoundDataset_len_def)
  show ?thesis
    using getitem_index_bounds [OF init_two_folders, of 2 ?rd Inr]
      getitem_index_bounds [OF init_two_folders, of "- 3" ?rd Inr]
      getitem_index_bounds [OF init_two_folders, of "- 2" ?rd Inr]
    by (simp add: n init_two_folders)
qed

text \<open>
  Claim C7 as stated rejects every index outside \<open>[0, length())\<close>. In a view of length 2
  the index \<open>-1\<close> returns the last entry, the file \<open>no/b.wav\<close> with its label.
\<close>

theorem getitem_negative_index_counterexample:
  "SoundDataset_init [(''yes'', [''a.wav'']), (''no'', [''b.wav'', ''notes.txt''])] None
     = Inr \<lparr>directory = [(''yes'', [''a.wav'']), (''no'', [''b.wav'', ''notes.txt''])], subset = None,
            labels = [''yes'', ''no''], sounds = [''a.wav'', ''b.wav''],
            transformed_labels = [[0, 1], [1, 0]]\<rparr>
   \<and> SoundDataset_len \<lparr>directory = [(''yes'', [''a.wav'']), (''no'', [''b.wav'', ''notes.txt''])],
            subset = None, labels = [''yes'', ''no''], sounds = [''a.wav'', ''b.wav''],
            transformed_labels = [[0, 1], [1, 0]]\<rparr> = 2
   \<and> getitem \<lparr>directory = [(''yes'', [''a.wav'']), (''no'', [''b.wav'', ''notes.txt''])], subset = None,
            labels = [''yes'', ''no''], sounds = [''a.wav'', ''b.wav''],
            transformed_labels = [[0, 1], [1, 0]]\<rparr>
        (\<lambda>folder name. if folder = ''no'' \<and> name = ''b.wav'' then Inr (16000, [1, 2, 3]) else Inl OSError)
        Inr (- 1)
       = Inr \<lparr>sample_rate = 16000, samples = [1, 2, 3], label = [1, 0]\<rparr>"
  by (simp add: SoundDataset_init_def init_from_subset_def list_of_wavs_def glob_parts_def unzip2_def
        is_needed_def endswith_def transform_labels_def get_dummies_def dummy_columns_def
        canonical_def legal_labels_def SoundDataset_len_def getitem_def py_index_def)

subsection \<open>Subset filters\<close>

lemma filter_length_mono:
  "(\<And>x. x \<in> set xs \<Longrightarrow> P x \<Longrightarrow> Q x) \<Longrightarrow> length (filter P xs) \<le> length (filter Q xs)"
  by (induction xs) auto

lemma init_from_subset_len:
  "init_from_subset d sub = Inr ds \<Longrightarrow>
     SoundDataset_len ds = length (filter (\<lambda>parts. is_needed sub (snd parts)) (glob_parts d ''wav''))"
  by (simp add: SoundDataset_len_def init_from_subset_Inr(1))

lemma view_mono:
  assumes imp: "\<And>name. is_needed sub1 name \<Longrightarrow> is_needed sub2 name"
    and v1: "init_from_subset d sub1 = Inr v1"
  shows "\<exists>v2. init_from_subset d sub2 = Inr v2 \<and> SoundDataset_len v1 \<le> SoundDataset_len v2"
proof -
  let ?k1 = "filter (\<lambda>parts. is_needed sub1 (snd parts)) (glob_parts d ''wav'')"
  let ?k2 = "filter (\<lambda>parts. is_needed sub2 (snd parts)) (glob_parts d ''wav'')"
  have "?k1 \<noteq> []" by (rule init_from_subset_Inr(4) [OF v1])
  then have "?k2 \<noteq> []" using imp by (auto simp: filter_empty_conv)
  then obtain v2 where v2: "init_from_subset d sub2 = Inr v2"
    using init_from_subset_nonempty by blast
  have "length ?k1 \<le> length ?k2"
    using imp by (intro filter_length_mono) simp
  then have "SoundDataset_len v1 \<le> SoundDataset_len v2"
    by (simp add: init_from_subset_len [OF v1] init_from_subset_len [OF v2])
  with v2 show ?thesis by blast
qed

text \<open>
  Claim C9. For a directory and two subset filters \<open>F1 \<subseteq> F2\<close>, the entries kept under
  \<open>F1\<close> are no more than those kept under \<open>F2\<close>; whenever the view with \<open>F1\<close> is built, the
  view with \<open>F2\<close> is built too and is at least as long, and so is the view without a
  filter.
\<close>

theorem subset_filter_monotone:
  assumes "F1 \<subseteq> F2"
  shows "length (filter (\<lambda>parts. is_needed (Some F1) (snd parts)) (glob_parts d ''wav''))
           \<le> length (filter (\<lambda>parts. is_needed (Some F2) (snd parts)) (glob_parts d ''wav''))
         \<and> (init_from_subset d (Some F1) = Inr v1 \<longrightarrow>
              (\<exists>v2. init_from_subset d (Some F2) = Inr v2 \<and> SoundDataset_len v1 \<le> SoundDataset_len v2)
              \<and> (\<exists>v. init_from_subset d None = Inr v \<and> SoundDataset_len v1 \<le> SoundDataset_len v))"
proof (intro conjI impI)
  show "length (filter (\<lambda>parts. is_needed (Some F1) (snd parts)) (glob_parts d ''wav''))
           \<le> length (filter (\<lambda>parts. is_needed (Some F2) (snd parts)) (glob_parts d ''wav''))"
    using assms by (intro filter_length_mono) (auto simp: is_needed_def)
next
  assume v1: "init_from_subset d (Some F1) = Inr v1"
  show "\<exists>v2. init_from_subset d (Some F2) = Inr v2 \<and> SoundDataset_len v1 \<le> SoundDataset_len v2"
    using assms by (intro view_mono [OF _ v1]) (auto simp: is_needed_def)
  show "\<exists>v. init_from_subset d None = Inr v \<and> SoundDataset_len v1 \<le> SoundDataset_len v"
    by (intro view_mono [OF _ v1]) (simp add: is_needed_def)
qed

theorem subset_filter_monotone_witness:
  "{''abc123.wav''} \<subseteq> {''abc123.wav'', ''def456.wav''}
   \<and> init_from_subset [(''yes'', [''abc123.wav'', ''def456.wav''])] (Some {''abc123.wav''})
       = Inr \<lparr>directory = [(''yes'', [''abc123.wav'', ''def456.wav''])], subset = Some {''abc123.wav''},
              labels = [''yes''], sounds = [''abc123.wav''], transformed_labels = [[1]]\<rparr>
   \<and> init_from_subset [(''yes'', [''abc123.wav'', ''def456.wav''])] (Some {''abc123.wav'', ''def456.wav''})
       = Inr \<lparr>directory = [(''yes'', [''abc123.wav'', ''def456.wav''])],
              subset = Some {''abc123.wav'', ''def456.wav''},
              labels = [''yes'', ''yes''], sounds = [''abc123.wav'', ''def456.wav''],
              transformed_labels = [[1], [1]]\<rparr>
   \<and> (\<exists>v2. init_from_subset [(''yes'', [''abc123.wav'', ''def456.wav''])]
               (Some {''abc123.wav'', ''def456.wav''}) = Inr v2
          \<and> SoundDataset_len \<lparr>directory = [(''yes'', [''abc123.wav'', ''def456.wav''])],
                subset = Some {''abc123.wav''}, labels = [''yes''], sounds = [''abc123.wav''],
                transformed_labels = [[1]]\<rparr> \<le> SoundDataset_len v2)"
proof -
  have sub: "{''abc123.wav''} \<subseteq> {''abc123.wav'', ''def456.wav''}"
    by simp
  have v1: "init_from_subset [(''yes'', [''abc123.wav'', ''def456.wav''])] (Some {''abc123.wav''})
       = Inr \<lparr>directory = [(''yes'', [''abc123.wav'', ''def456.wav''])], subset = Some {''abc123.wav''},
              labels = [''yes''], sounds = [''abc123.wav''], transformed_labels = [[1]]\<rparr>"
    by (simp add: init_from_subset_def list_of_wavs_def glob_parts_def unzip2_def
        is_needed_def endswith_def transform_labels_def get_dummies_def dummy_columns_def
        canonical_def legal_labels_def)
  have v2: "init_from_subset [(''yes'', [''abc123.wav'', ''def456.wav''])] (Some {''abc123.wav'', ''def456.wav''})
       = Inr \<lparr>directory = [(''yes'', [''abc123.wav'', ''def456.wav''])],
              subset = Some {''abc123.wav'', ''def456.wav''},
              labels = [''yes'', ''yes''], sounds = [''abc123.wav'', ''def456.wav''],
              transformed_labels = [[1], [1]]\<rparr>"
    by (simp add: init_from_subset_def list_of_wavs_def glob_parts_def unzip2_def
        is_needed_def endswith_def transform_labels_def get_dummies_def dummy_columns_def
        canonical_def legal_labels_def)
  show ?thesis
    using subset_filter_monotone [OF sub, of "[(''yes'', [''abc123.wav'', ''def456.wav''])]"
            "\<lparr>directory = [(''yes'', [''abc123.wav'', ''def456.wav''])], subset = Some {''abc123.wav''},
              labels = [''yes''], sounds = [''abc123.wav''], transformed_labels = [[1]]\<rparr>"]
    by (simp only: sub v1 v2 simp_thms)
qed

end
